theory Spec2Isabelle
  imports Main "HOL-Library.Word"
begin

unbundle bit_operations_syntax

section \<open>The CAN bridge of \<^verbatim>\<open>bridge/bridge.py\<close>\<close>

subsection \<open>Length codes\<close>

type_synonym byte = "8 word"

text \<open>
  \<^verbatim>\<open>SilKitBridge.get_dlc_size\<close> (lines 405-423): the payload size that a DLC stands for.
  The argument is a Python integer, here a natural number; a code above 15 falls through
  the chain and gives 0.
\<close>

definition get_dlc_size :: "nat \<Rightarrow> nat" where
  "get_dlc_size dlc =
     (if dlc \<le> 8 then dlc
      else if dlc = 9 then 12
      else if dlc = 10 then 16
      else if dlc = 11 then 20
      else if dlc = 12 then 24
      else if dlc = 13 then 32
      else if dlc = 14 then 48
      else if dlc = 15 then 64
      else 0)"

text \<open>
  The DLC block of the JSON path of \<^verbatim>\<open>handle_client\<close> (lines 298-319). It assigns
  \<^verbatim>\<open>frame.dlc\<close> from \<^verbatim>\<open>data_len\<close> and, in the last branch only, cuts the data to 64
  bytes and prints a warning. The result is the DLC, the data, the length and whether the
  warning was printed.
\<close>

definition dlc_block :: "byte list \<Rightarrow> nat \<Rightarrow> nat \<times> byte list \<times> nat \<times> bool" where
  "dlc_block original_data data_len =
     (if data_len \<le> 8 then (data_len, original_data, data_len, False)
      else if data_len \<le> 12 then (9, original_data, data_len, False)
      else if data_len \<le> 16 then (10, original_data, data_len, False)
      else if data_len \<le> 20 then (11, original_data, data_len, False)
      else if data_len \<le> 24 then (12, original_data, data_len, False)
      else if data_len \<le> 32 then (13, original_data, data_len, False)
      else if data_len \<le> 48 then (14, original_data, data_len, False)
      else if data_len > 64 then (15, take 64 original_data, 64, True)
      else (15, original_data, data_len, False))"

text \<open>The DLC that the block assigns to a payload of \<open>n\<close> bytes.\<close>

definition encode_length :: "nat \<Rightarrow> nat" where
  "encode_length n = fst (dlc_block (replicate n 0) n)"

text \<open>The payload sizes that a DLC can stand for.\<close>

definition buckets :: "nat list" where
  "buckets = [0, 1, 2, 3, 4, 5, 6, 7, 8, 12, 16, 20, 24, 32, 48, 64]"

subsection \<open>Frames of the bus transport\<close>

text \<open>
  \<^verbatim>\<open>SilKit_ByteVector\<close> (lines 19-23) is a pointer with a size. The pointer is \<open>None\<close>
  when it is NULL and otherwise gives the buffer it points to. \<^verbatim>\<open>CanFrame\<close> (lines
  25-35) carries the header version, the identifier, the flags, the DLC and the data; the
  source's field \<^verbatim>\<open>id\<close> is \<open>frame_id\<close> here and \<^verbatim>\<open>size\<close> is \<open>size_bv\<close>.
\<close>

record SilKit_ByteVector =
  data_ptr :: "byte list option"
  size_bv :: nat

record CanFrame =
  version :: "64 word"
  frame_id :: "32 word"
  flags :: "32 word"
  dlc :: "8 word"
  sdt :: "8 word"
  vcid :: "8 word"
  af :: "32 word"
  data :: SilKit_ByteVector

text \<open>The header version written at lines 226 and 281.\<close>

definition struct_header_version :: "64 word" where
  "struct_header_version =
     push_bit 56 83 OR push_bit 48 75 OR push_bit 40 1 OR push_bit 32 1 OR push_bit 24 1"

text \<open>
  \<^verbatim>\<open>(c_uint8 * data_len)(*values)\<close>: an array of \<open>data_len\<close> bytes, filled from the
  values and padded with zeros; more values than elements raise IndexError.
\<close>

definition c_uint8_array :: "nat \<Rightarrow> byte list \<Rightarrow> byte list option" where
  "c_uint8_array data_len vals =
     (if length vals \<le> data_len then Some (vals @ replicate (data_len - length vals) 0)
      else None)"

subsection \<open>Streams\<close>

text \<open>
  An \<^verbatim>\<open>asyncio.StreamReader\<close>. \<open>stream\<close> holds the bytes that the peer sends before it
  closes and that no read has returned yet. \<open>arrivals\<close> says, for each coming call of
  \<^verbatim>\<open>read(n)\<close> with \<open>n > 0\<close>, how many of these bytes are in the reader's buffer when
  the call returns; the call waits for at least one byte, and when the list is used up the
  whole stream has arrived. \<^verbatim>\<open>read(n)\<close> returns at most \<open>n\<close> of the buffered bytes,
  \<^verbatim>\<open>read(0)\<close> returns no bytes at once, and a read at the end of the stream returns no
  bytes.
\<close>

record reader =
  stream :: "byte list"
  arrivals :: "nat list"

definition reader_read :: "nat \<Rightarrow> reader \<Rightarrow> byte list \<times> reader" where
  "reader_read n r =
     (if n = 0 then ([], r)
      else case arrivals r of
        [] \<Rightarrow> (take n (stream r), r\<lparr>stream := drop n (stream r)\<rparr>)
      | k # ks \<Rightarrow>
          (take (min n (max 1 k)) (stream r),
           \<lparr>stream = drop (min n (max 1 k)) (stream r), arrivals = ks\<rparr>))"

text \<open>
  An \<^verbatim>\<open>asyncio.StreamWriter\<close> with its socket transport. \<open>written\<close> holds the bytes
  handed to the calls of \<^verbatim>\<open>write\<close> that returned. \<open>write_raises\<close> says that
  \<^verbatim>\<open>write\<close> raises: the transport does so after \<^verbatim>\<open>write_eof()\<close> and while a
  sendfile is in progress, which the bridge never starts. \<open>send_fails\<close> says that the
  socket refuses the data of the next \<^verbatim>\<open>write\<close>: the transport then does not raise,
  it drops the data and closes itself (\<^verbatim>\<open>_fatal_error\<close>, \<^verbatim>\<open>_force_close\<close>).
  \<open>closed\<close> says that the transport is closed, by \<^verbatim>\<open>close()\<close> or by such a failure;
  a \<^verbatim>\<open>write\<close> to a closed transport returns and drops the data.
\<close>

record writer =
  peername :: "string option"
  written :: "byte list"
  write_raises :: bool
  send_fails :: bool
  closed :: bool

text \<open>\<^verbatim>\<open>peer[0].startswith('192.0.2.')\<close> (lines 189 and 389).\<close>

definition startswith :: "string \<Rightarrow> string \<Rightarrow> bool" where
  "startswith s p = (take (length p) s = p)"

subsection \<open>The bridge\<close>

text \<open>The lines that the bridge prints, each with the line of the source that prints it.\<close>

datatype report =
    NewConnection "string option"  \<comment> \<open>185\<close>
  | IncompleteHeader string  \<comment> \<open>201\<close>
  | IncompleteData string  \<comment> \<open>213\<close>
  | ReceivedRaw nat nat  \<comment> \<open>216\<close>
  | ForwardingRaw nat nat  \<comment> \<open>244\<close>
  | SendFailedRaw int  \<comment> \<open>252\<close>
  | SendOkRaw nat nat  \<comment> \<open>254\<close>
  | DebugReceivedJson int  \<comment> \<open>274\<close>
  | DebugConverting "32 word" "byte list"  \<comment> \<open>294\<close>
  | WarningTruncating  \<comment> \<open>317\<close>
  | SendingFrame "32 word" nat  \<comment> \<open>334\<close>
  | SendFailed int  \<comment> \<open>342\<close>
  | SendOk "32 word" nat  \<comment> \<open>344\<close>
  | ErrorHandlingClient string  \<comment> \<open>347\<close>
  | ConnectionClosed string  \<comment> \<open>352\<close>
  | DebugHandling "32 word" "8 word" nat  \<comment> \<open>359\<close>
  | DebugFrameData "byte list"  \<comment> \<open>367\<close>
  | DebugSendingThermal "string option"  \<comment> \<open>392\<close>
  | DebugRawFrame "byte list"  \<comment> \<open>393\<close>
  | ErrorSending  \<comment> \<open>399\<close>
  | DebugSentCount nat  \<comment> \<open>401\<close>
  | ErrorProcessing  \<comment> \<open>403\<close>

text \<open>
  The state of a \<^verbatim>\<open>SilKitBridge\<close> and of what it talks to. \<open>clients\<close> is the set
  \<^verbatim>\<open>self.clients\<close> of writer objects, as the list of their handles in the order in
  which the set is iterated; \<open>writers\<close> is the store of the writer objects.
  \<open>send_calls\<close> records the frames handed to \<^verbatim>\<open>SilKit_CanController_SendFrame\<close>, and
  \<open>bus_status\<close> gives the statuses that the transport returns to the coming calls (0
  once the list is used up). \<open>console\<close> is the printed output. \<open>alloc_limit\<close> is
  the largest number of bytes that \<^verbatim>\<open>bytes(n)\<close> can allocate in this process; above
  it \<^verbatim>\<open>bytes(n)\<close> raises MemoryError or OverflowError.
\<close>

record bridge =
  clients :: "nat list"
  writers :: "nat \<Rightarrow> writer"
  data_buffers :: "byte list list"
  send_calls :: "CanFrame list"
  bus_status :: "int list"
  console :: "report list"
  alloc_limit :: nat

definition print_line :: "report \<Rightarrow> bridge \<Rightarrow> bridge" where
  "print_line r b = b\<lparr>console := console b @ [r]\<rparr>"

definition SendFrame :: "CanFrame \<Rightarrow> bridge \<Rightarrow> int \<times> bridge" where
  "SendFrame frame b =
     (case bus_status b of
        [] \<Rightarrow> (0, b\<lparr>send_calls := send_calls b @ [frame]\<rparr>)
      | err # errs \<Rightarrow> (err, b\<lparr>send_calls := send_calls b @ [frame], bus_status := errs\<rparr>))"

text \<open>Lines 235-237 and 325-327: the buffer is kept, and only the last ten are.\<close>

definition keep_buffer :: "byte list \<Rightarrow> bridge \<Rightarrow> bridge" where
  "keep_buffer data_buffer b =
     (if length (data_buffers b @ [data_buffer]) > 10
      then b\<lparr>data_buffers := tl (data_buffers b @ [data_buffer])\<rparr>
      else b\<lparr>data_buffers := data_buffers b @ [data_buffer]\<rparr>)"

text \<open>How one pass through the body of \<^verbatim>\<open>while True\<close> ends: the loop goes on, a
  \<^verbatim>\<open>break\<close> leaves it, or an exception leaves it.\<close>

datatype control = Continue | Break | Raise

subsection \<open>The raw binary path of \<^verbatim>\<open>handle_client\<close> (lines 197-254)\<close>

text \<open>Lines 216-254: the frame is built from the identifier and the data and is sent.\<close>

definition thermal_forward :: "nat \<Rightarrow> nat \<Rightarrow> byte list \<Rightarrow> bridge \<Rightarrow> control \<times> bridge" where
  "thermal_forward can_id data_len data_bytes b =
     (let b1 = print_line (ReceivedRaw can_id data_len) b
      in case c_uint8_array data_len data_bytes of
           None \<Rightarrow> (Raise, b1)
         | Some data_buffer \<Rightarrow>
             (let frame = \<lparr>version = struct_header_version, frame_id = of_nat can_id,
                    flags = 0, dlc = of_nat data_len, sdt = 0, vcid = 0, af = 0,
                    data = \<lparr>data_ptr = Some data_buffer, size_bv = data_len\<rparr>\<rparr>;
                  b2 = keep_buffer data_buffer b1;
                  b3 = print_line (ForwardingRaw can_id data_len) b2
              in case SendFrame frame b3 of
                   (err, b4) \<Rightarrow>
                     if err \<noteq> 0 then (Continue, print_line (SendFailedRaw err) b4)
                     else (Continue, print_line (SendOkRaw can_id data_len) b4)))"

text \<open>Lines 199-214, and then the lines above: one pass of the loop for a thermal client.\<close>

definition thermal_iteration :: "string \<Rightarrow> reader \<Rightarrow> bridge \<Rightarrow> control \<times> reader \<times> bridge" where
  "thermal_iteration addr rd b =
     (case reader_read 5 rd of
        (header, rd1) \<Rightarrow>
          if header = [] \<or> length header < 5
          then (Break, rd1, print_line (IncompleteHeader addr) b)
          else
            (let can_id = push_bit 24 (unat (header ! 0)) OR push_bit 16 (unat (header ! 1))
                   OR push_bit 8 (unat (header ! 2)) OR unat (header ! 3);
                 data_len = unat (header ! 4)
             in case reader_read data_len rd1 of
                  (data_bytes, rd2) \<Rightarrow>
                    if data_bytes = [] \<or> length data_bytes < data_len
                    then (Break, rd2, print_line (IncompleteData addr) b)
                    else (case thermal_forward can_id data_len data_bytes b of
                            (c, b') \<Rightarrow> (c, rd2, b'))))"

subsection \<open>The JSON path of \<^verbatim>\<open>handle_client\<close> (lines 256-344)\<close>

text \<open>
  The values that \<^verbatim>\<open>json.loads\<close> returns: \<^verbatim>\<open>None\<close>, booleans, integers, floats
  (by their bits), strings, lists and dictionaries (by their items).
\<close>

datatype json =
    JNull
  | JBool bool
  | JInt int
  | JFloat "64 word"
  | JStr string
  | JList "json list"
  | JDict "(string \<times> json) list"

text \<open>\<^verbatim>\<open>msg[key]\<close> with a string key: KeyError when the dictionary has no such key,
  TypeError when \<^verbatim>\<open>msg\<close> is not a dictionary.\<close>

definition getitem :: "json \<Rightarrow> string \<Rightarrow> json option" where
  "getitem msg key = (case msg of JDict kvs \<Rightarrow> map_of kvs key | _ \<Rightarrow> None)"

text \<open>\<^verbatim>\<open>msg.get(key, default)\<close>: AttributeError when \<^verbatim>\<open>msg\<close> is not a dictionary.\<close>

definition dict_get :: "json \<Rightarrow> string \<Rightarrow> json \<Rightarrow> json option" where
  "dict_get msg key dflt =
     (case msg of
        JDict kvs \<Rightarrow> (case map_of kvs key of None \<Rightarrow> Some dflt | Some v \<Rightarrow> Some v)
      | _ \<Rightarrow> None)"

text \<open>
  The integer of a value where Python wants one (the format code \<^verbatim>\<open>x\<close>, an element of
  \<^verbatim>\<open>bytes(...)\<close>, a \<^verbatim>\<open>c_uint32\<close> field): integers and booleans have one, every other
  value raises.
\<close>

definition py_index :: "json \<Rightarrow> int option" where
  "py_index v =
     (case v of JInt i \<Rightarrow> Some i | JBool t \<Rightarrow> Some (if t then 1 else 0) | _ \<Rightarrow> None)"

definition byte_of :: "json \<Rightarrow> byte option" where
  "byte_of v =
     (case py_index v of
        None \<Rightarrow> None
      | Some i \<Rightarrow> if 0 \<le> i \<and> i < 256 then Some (of_int i) else None)"

text \<open>
  \<^verbatim>\<open>bytes(v)\<close>, where \<open>limit\<close> is the largest size that can be allocated: the bytes
  of a list of integers from 0 to 255, \<open>n\<close> zero bytes for an integer \<open>n\<close> from 0 to
  the limit, nothing for an empty dictionary, and an exception otherwise: ValueError
  for a negative integer, MemoryError or OverflowError for an integer above the limit,
  TypeError for the other values (a dictionary is iterated by its keys, which are
  strings).
\<close>

definition py_bytes :: "nat \<Rightarrow> json \<Rightarrow> byte list option" where
  "py_bytes limit v =
     (case v of
        JList xs \<Rightarrow> those (map byte_of xs)
      | JInt n \<Rightarrow> if 0 \<le> n \<and> nat n \<le> limit then Some (replicate (nat n) 0) else None
      | JBool t \<Rightarrow> Some (replicate (if t then 1 else 0) 0)
      | JDict kvs \<Rightarrow> if kvs = [] then Some [] else None
      | _ \<Rightarrow> None)"

text \<open>\<^verbatim>\<open>struct.unpack('!I', bs)[0]\<close>: struct.error unless there are four bytes.\<close>

definition unpack_I :: "byte list \<Rightarrow> nat option" where
  "unpack_I bs =
     (if length bs = 4
      then Some (unat (bs ! 0) * 2 ^ 24 + unat (bs ! 1) * 2 ^ 16 + unat (bs ! 2) * 2 ^ 8
             + unat (bs ! 3))
      else None)"

text \<open>Lines 274-344: a message of type \<^verbatim>\<open>can\<close> becomes a frame and is sent.\<close>

definition json_can :: "json \<Rightarrow> bridge \<Rightarrow> control \<times> bridge" where
  "json_can msg b =
     (case getitem msg ''id'' of
        None \<Rightarrow> (Raise, b)
      | Some v \<Rightarrow>
     (case py_index v of
        None \<Rightarrow> (Raise, b)
      | Some i \<Rightarrow>
     (case dict_get msg ''data'' (JList []) of
        None \<Rightarrow> (Raise, b)
      | Some d \<Rightarrow>
     (let b1 = print_line (DebugReceivedJson i) b
      in case py_bytes (alloc_limit b) d of
        None \<Rightarrow> (Raise, b1)
      | Some original_data \<Rightarrow>
     (let b2 = print_line (DebugConverting (of_int i) original_data) b1
      in case dlc_block original_data (length original_data) of
        (frame_dlc, original_data', data_len, warned) \<Rightarrow>
     (let b3 = (if warned then print_line WarningTruncating b2 else b2)
      in case c_uint8_array data_len original_data' of
        None \<Rightarrow> (Raise, b3)
      | Some data_buffer \<Rightarrow>
     (let b4 = keep_buffer data_buffer b3;
          frame = \<lparr>version = struct_header_version, frame_id = of_int i, flags = 0,
            dlc = of_nat frame_dlc, sdt = 0, vcid = 0, af = 0,
            data = \<lparr>data_ptr = Some data_buffer, size_bv = data_len\<rparr>\<rparr>;
          b5 = print_line (SendingFrame (of_int i) data_len) b4
      in case SendFrame frame b5 of
        (err, b6) \<Rightarrow>
          if err \<noteq> 0 then (Continue, print_line (SendFailed err) b6)
          else (Continue, print_line (SendOk (of_int i) data_len) b6))))))))"

text \<open>
  Lines 258-273, and then the lines above: one pass of the loop for a JSON client.
  \<open>loads\<close> stands for \<^verbatim>\<open>json.loads(msg_bytes.decode())\<close>, with \<open>None\<close> where it
  raises.
\<close>

definition json_iteration ::
  "(byte list \<Rightarrow> json option) \<Rightarrow> reader \<Rightarrow> bridge \<Rightarrow> control \<times> reader \<times> bridge" where
  "json_iteration loads rd b =
     (case reader_read 4 rd of
        (length_bytes, rd1) \<Rightarrow>
          if length_bytes = [] then (Break, rd1, b)
          else
            (case unpack_I length_bytes of
               None \<Rightarrow> (Raise, rd1, b)
             | Some msg_length \<Rightarrow>
                 (case reader_read msg_length rd1 of
                    (msg_bytes, rd2) \<Rightarrow>
                      if msg_bytes = [] then (Break, rd2, b)
                      else
                        (case loads msg_bytes of
                           None \<Rightarrow> (Raise, rd2, b)
                         | Some msg \<Rightarrow>
                             (case getitem msg ''type'' of
                                None \<Rightarrow> (Raise, rd2, b)
                              | Some t \<Rightarrow>
                                  if t = JStr ''can''
                                  then (case json_can msg b of (c, b') \<Rightarrow> (c, rd2, b'))
                                  else (Continue, rd2, b))))))"

subsection \<open>\<^verbatim>\<open>handle_client\<close> (lines 183-352)\<close>

definition loop_body ::
  "bool \<Rightarrow> string \<Rightarrow> (byte list \<Rightarrow> json option) \<Rightarrow> reader \<Rightarrow> bridge
    \<Rightarrow> control \<times> reader \<times> bridge" where
  "loop_body is_thermal addr loads rd b =
     (if is_thermal then thermal_iteration addr rd b else json_iteration loads rd b)"

text \<open>
  The loop \<^verbatim>\<open>while True\<close> (lines 195-344). The stream of the model is finite and ends
  when the peer closes, and every pass that goes on has taken at least one byte from it,
  so the loop ends, with \<open>Break\<close> or \<open>Raise\<close>.
\<close>

function client_loop ::
  "bool \<Rightarrow> string \<Rightarrow> (byte list \<Rightarrow> json option) \<Rightarrow> reader \<Rightarrow> bridge
    \<Rightarrow> control \<times> reader \<times> bridge" where
  "client_loop is_thermal addr loads rd b =
     (let r = loop_body is_thermal addr loads rd b
      in if fst r = Continue then client_loop is_thermal addr loads (fst (snd r)) (snd (snd r))
         else r)"
  by pat_completeness auto
termination
proof (relation "measure (\<lambda>(is_thermal, addr, loads, rd, b). length (stream rd))")
  show "wf (measure (\<lambda>(is_thermal, addr, loads, rd, b). length (stream rd)))"
    by simp
next
  fix is_thermal :: bool and addr :: string and loads :: "byte list \<Rightarrow> json option"
    and rd :: reader and b :: bridge and r :: "control \<times> reader \<times> bridge"
  assume r: "r = loop_body is_thermal addr loads rd b" and c: "fst r = Continue"
  have shrink: "bs \<noteq> [] \<Longrightarrow> reader_read n rd0 = (bs, rd0')
      \<Longrightarrow> length (stream rd0') < length (stream rd0)" for bs n rd0 rd0'
    by (auto simp: reader_read_def split: if_splits list.splits)
  have keep: "reader_read n rd0 = (bs, rd0') \<Longrightarrow> length (stream rd0') \<le> length (stream rd0)"
    for bs n rd0 rd0'
    by (auto simp: reader_read_def split: if_splits list.splits)
  have "length (stream (fst (snd r))) < length (stream rd)"
  proof (cases is_thermal)
    case True
    obtain header rd1 where h: "reader_read 5 rd = (header, rd1)"
      by (cases "reader_read 5 rd")
    obtain data_bytes rd2 where d: "reader_read (unat (header ! 4)) rd1 = (data_bytes, rd2)"
      by (cases "reader_read (unat (header ! 4)) rd1")
    from c r True h d have "header \<noteq> []" and rd2: "fst (snd r) = rd2"
      by (auto simp: loop_body_def thermal_iteration_def Let_def split: if_splits prod.splits)
    then have "length (stream rd1) < length (stream rd)"
      using shrink [OF _ h] by simp
    moreover have "length (stream rd2) \<le> length (stream rd1)"
      using keep [OF d] .
    ultimately show ?thesis using rd2 by simp
  next
    case False
    obtain length_bytes rd1 where h: "reader_read 4 rd = (length_bytes, rd1)"
      by (cases "reader_read 4 rd")
    from c r False h have ne: "length_bytes \<noteq> []"
      by (auto simp: loop_body_def json_iteration_def split: if_splits)
    then obtain msg_length where m: "unpack_I length_bytes = Some msg_length"
      using c r False h
      by (auto simp: loop_body_def json_iteration_def split: if_splits option.splits)
    obtain msg_bytes rd2 where d: "reader_read msg_length rd1 = (msg_bytes, rd2)"
      by (cases "reader_read msg_length rd1")
    from c r False h ne m d have rd2: "fst (snd r) = rd2"
      by (auto simp: loop_body_def json_iteration_def
          split: if_splits option.splits prod.splits)
    have "length (stream rd1) < length (stream rd)"
      using shrink [OF ne h] .
    moreover have "length (stream rd2) \<le> length (stream rd1)"
      using keep [OF d] .
    ultimately show ?thesis using rd2 by simp
  qed
  then show "((is_thermal, addr, loads, fst (snd r), snd (snd r)), (is_thermal, addr, loads, rd, b))
      \<in> measure (\<lambda>(is_thermal, addr, loads, rd, b). length (stream rd))"
    by (simp add: case_prod_beta)
qed

declare client_loop.simps [simp del]

text \<open>
  \<^verbatim>\<open>handle_client\<close> for the writer object \<open>w\<close>. A peer without an address makes line
  189 raise before the \<^verbatim>\<open>try\<close>, after the writer has been added to the set. Otherwise the
  loop runs, an exception is printed, and in any case the writer is closed and removed
  from the set.
\<close>

definition handle_client ::
  "nat \<Rightarrow> (byte list \<Rightarrow> json option) \<Rightarrow> reader \<Rightarrow> bridge \<Rightarrow> reader \<times> bridge" where
  "handle_client w loads rd b =
     (let addr = peername (writers b w);
          b1 = print_line (NewConnection addr) b;
          b2 = b1\<lparr>clients := (if w \<in> set (clients b1) then clients b1 else clients b1 @ [w])\<rparr>
      in case addr of
           None \<Rightarrow> (rd, b2)
         | Some host \<Rightarrow>
             (let is_thermal = startswith host ''192.0.2.'';
                  b3 = b2\<lparr>data_buffers := []\<rparr>
              in case client_loop is_thermal host loads rd b3 of
                   (c, rd', b4) \<Rightarrow>
                     (let b5 = (if c = Raise then print_line (ErrorHandlingClient host) b4 else b4);
                          b6 = b5\<lparr>writers := (writers b5)(w := (writers b5 w)\<lparr>closed := True\<rparr>)\<rparr>;
                          b7 = b6\<lparr>clients := removeAll w (clients b6)\<rparr>
                      in (rd', print_line (ConnectionClosed host) b7))))"

subsection \<open>\<^verbatim>\<open>handle_can_message\<close> (lines 354-403)\<close>

text \<open>\<^verbatim>\<open>struct.pack('!I', v)\<close> of a \<^verbatim>\<open>c_uint32\<close>, and \<^verbatim>\<open>struct.pack('!B', n)\<close>, which
  raises struct.error unless \<open>n\<close> is from 0 to 255.\<close>

definition pack_I :: "32 word \<Rightarrow> byte list" where
  "pack_I v = [ucast (drop_bit 24 v), ucast (drop_bit 16 v), ucast (drop_bit 8 v), ucast v]"

definition pack_B :: "nat \<Rightarrow> byte list option" where
  "pack_B n = (if n < 256 then Some [of_nat n] else None)"

text \<open>Line 357.\<close>

definition data_size_of :: "CanFrame \<Rightarrow> nat" where
  "data_size_of frame =
     (if data_ptr (data frame) \<noteq> None
      then min (get_dlc_size (unat (dlc frame))) (size_bv (data frame))
      else 0)"

text \<open>Lines 362-365: the bytes read through the pointer, at the indices below the size.\<close>

definition data_array_of :: "CanFrame \<Rightarrow> byte list" where
  "data_array_of frame =
     (case data_ptr (data frame) of
        None \<Rightarrow> []
      | Some buf \<Rightarrow>
          if data_size_of frame > 0 then map (\<lambda>i. buf ! i) [0..<data_size_of frame] else [])"

text \<open>Lines 371-381: the identifier, the length and the data, with \<open>None\<close> where
  \<^verbatim>\<open>struct.pack\<close> raises.\<close>

definition raw_frame_of :: "CanFrame \<Rightarrow> byte list option" where
  "raw_frame_of frame =
     (case pack_B (data_size_of frame) of
        None \<Rightarrow> None
      | Some len_byte \<Rightarrow>
          Some (pack_I (frame_id frame) @ len_byte
                  @ concat (map (\<lambda>byte. [byte]) (data_array_of frame))))"

text \<open>
  Lines 386-399: the body of the loop over the clients, for the writer \<open>w\<close>. When
  \<^verbatim>\<open>write\<close> raises, the error is printed. Otherwise the call returns, and a socket
  that refuses the data leaves the transport closed.
\<close>

definition write_to_client :: "byte list \<Rightarrow> nat \<Rightarrow> bridge \<times> nat \<Rightarrow> bridge \<times> nat" where
  "write_to_client raw_frame w s =
     (case s of
        (b, client_count) \<Rightarrow>
          (let peer = peername (writers b w);
               is_thermal = (case peer of None \<Rightarrow> False | Some host \<Rightarrow> startswith host ''192.0.2.'');
               b1 = (if is_thermal
                     then print_line (DebugRawFrame raw_frame) (print_line (DebugSendingThermal peer) b)
                     else b)
           in if write_raises (writers b1 w) then (print_line ErrorSending b1, client_count)
              else (b1\<lparr>writers := (writers b1)
                         (w := (writers b1 w)
                            \<lparr>written := written (writers b1 w) @ raw_frame,
                             closed := closed (writers b1 w) \<or> send_fails (writers b1 w)\<rparr>)\<rparr>,
                    client_count + 1)))"

definition handle_can_message :: "CanFrame \<Rightarrow> bridge \<Rightarrow> bridge" where
  "handle_can_message frame b =
     (let b1 = print_line (DebugHandling (frame_id frame) (dlc frame) (data_size_of frame)) b;
          b2 = (if data_ptr (data frame) \<noteq> None \<and> data_size_of frame > 0
                then print_line (DebugFrameData (data_array_of frame)) b1 else b1)
      in case raw_frame_of frame of
           None \<Rightarrow> print_line ErrorProcessing b2
         | Some raw_frame \<Rightarrow>
             (case fold (write_to_client raw_frame) (clients b2) (b2, 0) of
                (b3, client_count) \<Rightarrow> print_line (DebugSentCount client_count) b3))"

subsection \<open>States for examples\<close>

text \<open>An open writer for a peer at the given address, with nothing written to it, and a
  bridge that has sent and printed nothing yet.\<close>

definition open_writer :: "string \<Rightarrow> writer" where
  "open_writer host =
     \<lparr>peername = Some host, written = [], write_raises = False, send_fails = False,
      closed = False\<rparr>"

definition quiet_bridge :: "nat list \<Rightarrow> (nat \<Rightarrow> writer) \<Rightarrow> int list \<Rightarrow> bridge" where
  "quiet_bridge cs ws errs =
     \<lparr>clients = cs, writers = ws, data_buffers = [], send_calls = [], bus_status = errs,
      console = [], alloc_limit = 2 ^ 31\<rparr>"

section \<open>Properties\<close>

lemma encode_length_eq:
  "encode_length n =
     (if n \<le> 8 then n else if n \<le> 12 then 9 else if n \<le> 16 then 10
      else if n \<le> 20 then 11 else if n \<le> 24 then 12 else if n \<le> 32 then 13
      else if n \<le> 48 then 14 else 15)"
  by (simp add: encode_length_def dlc_block_def)

text \<open>
  C1. For every payload length \<open>n\<close> from 0 to 64, the size that \<open>get_dlc_size\<close> gives
  for the DLC computed by the JSON path is at least \<open>n\<close>, it is one of the representable
  sizes, no representable size that is at least \<open>n\<close> is smaller, and for \<open>n\<close> up to 8 it
  is \<open>n\<close> itself.
\<close>

theorem length_round_trip:
  assumes "n \<le> 64"
  shows "n \<le> get_dlc_size (encode_length n)
    \<and> get_dlc_size (encode_length n) \<in> set buckets
    \<and> (\<forall>b \<in> set buckets. n \<le> b \<longrightarrow> get_dlc_size (encode_length n) \<le> b)
    \<and> (n \<le> 8 \<longrightarrow> get_dlc_size (encode_length n) = n)"
proof -
  have ge: "n \<le> get_dlc_size (encode_length n)"
    using assms by (simp add: encode_length_eq get_dlc_size_def)
  have mem: "get_dlc_size (encode_length n) \<in> set buckets"
    using assms by (auto simp: encode_length_eq get_dlc_size_def buckets_def)
  have least: "\<forall>b \<in> set buckets. n \<le> b \<longrightarrow> get_dlc_size (encode_length n) \<le> b"
    using assms by (auto simp: encode_length_eq get_dlc_size_def buckets_def)
  have small: "n \<le> 8 \<longrightarrow> get_dlc_size (encode_length n) = n"
    by (simp add: encode_length_eq get_dlc_size_def)
  from ge mem least small show ?thesis by blast
qed

theorem length_round_trip_witness:
  "(13::nat) \<le> 64 \<and> get_dlc_size (encode_length 13) = 16 \<and> 16 \<in> set buckets"
  using length_round_trip [of 13] by (simp add: encode_length_eq get_dlc_size_def)

subsection \<open>The raw binary path\<close>

lemma thermal_forward_eq:
  assumes "length data_bytes = data_len"
  shows "thermal_forward can_id data_len data_bytes b =
    (Continue,
     print_line (if hd (bus_status b @ [0]) \<noteq> 0 then SendFailedRaw (hd (bus_status b @ [0]))
                 else SendOkRaw can_id data_len)
       ((print_line (ForwardingRaw can_id data_len)
          (keep_buffer data_bytes (print_line (ReceivedRaw can_id data_len) b)))
        \<lparr>send_calls := send_calls b @
           [\<lparr>version = struct_header_version, frame_id = of_nat can_id, flags = 0,
             dlc = of_nat data_len, sdt = 0, vcid = 0, af = 0,
             data = \<lparr>data_ptr = Some data_bytes, size_bv = data_len\<rparr>\<rparr>],
          bus_status := tl (bus_status b)\<rparr>))"
  using assms
  by (cases "bus_status b")
    (simp_all add: thermal_forward_def c_uint8_array_def Let_def SendFrame_def print_line_def
      keep_buffer_def)

lemma thermal_forward_sent:
  assumes "length data_bytes = data_len"
  shows "fst (thermal_forward can_id data_len data_bytes b) = Continue
    \<and> send_calls (snd (thermal_forward can_id data_len data_bytes b)) = send_calls b @
           [\<lparr>version = struct_header_version, frame_id = of_nat can_id, flags = 0,
             dlc = of_nat data_len, sdt = 0, vcid = 0, af = 0,
             data = \<lparr>data_ptr = Some data_bytes, size_bv = data_len\<rparr>\<rparr>]"
  by (simp add: thermal_forward_eq [OF assms] print_line_def)



lemma thermal_iteration_complete:
  assumes "reader_read 5 rd = (header, rd1)" and "length header = 5"
    and "reader_read (unat (header ! 4)) rd1 = (data_bytes, rd2)"
    and "data_bytes \<noteq> []" and "length data_bytes = unat (header ! 4)"
  shows "thermal_iteration addr rd b =
    (fst (thermal_forward
        (push_bit 24 (unat (header ! 0)) OR push_bit 16 (unat (header ! 1))
           OR push_bit 8 (unat (header ! 2)) OR unat (header ! 3))
        (unat (header ! 4)) data_bytes b), rd2,
     snd (thermal_forward
        (push_bit 24 (unat (header ! 0)) OR push_bit 16 (unat (header ! 1))
           OR push_bit 8 (unat (header ! 2)) OR unat (header ! 3))
        (unat (header ! 4)) data_bytes b))"
  using assms by (auto simp add: thermal_iteration_def Let_def split: prod.splits)

text \<open>The identifier that lines 205 computes from the four bytes of \<^verbatim>\<open>struct.pack('!I', v)\<close>
  is \<open>v\<close>.\<close>

lemma can_id_pack_I:
  "(of_nat (push_bit 24 (unat (pack_I v ! 0)) OR push_bit 16 (unat (pack_I v ! 1))
           OR push_bit 8 (unat (pack_I v ! 2)) OR unat (pack_I v ! 3)) :: 32 word) = v"
proof (rule bit_word_eqI)
  fix n :: nat
  assume "n < LENGTH(32)"
  then have n: "n < 32" by simp
  consider "n < 8" | "8 \<le> n" "n < 16" | "16 \<le> n" "n < 24" | "24 \<le> n"
    by linarith
  then show "bit (of_nat (push_bit 24 (unat (pack_I v ! 0)) OR push_bit 16 (unat (pack_I v ! 1))
           OR push_bit 8 (unat (pack_I v ! 2)) OR unat (pack_I v ! 3)) :: 32 word) n = bit v n"
  proof cases
    case 1
    then show ?thesis using n by (simp add: pack_I_def bit_simps)
  next
    case 2
    then show ?thesis using n by (auto simp add: pack_I_def bit_simps)
  next
    case 3
    then show ?thesis using n by (auto simp add: pack_I_def bit_simps)
  next
    case 4
    then show ?thesis using n by (auto simp add: pack_I_def bit_simps)
  qed
qed

lemma length_pack_I: "length (pack_I v) = 4"
  by (simp add: pack_I_def)

lemma client_loop_continue:
  assumes "loop_body is_thermal addr loads rd b = (Continue, rd', b')"
  shows "client_loop is_thermal addr loads rd b = client_loop is_thermal addr loads rd' b'"
  by (subst client_loop.simps) (simp add: assms)

lemma client_loop_stop:
  assumes "loop_body is_thermal addr loads rd b = (c, rd', b')" and "c \<noteq> Continue"
  shows "client_loop is_thermal addr loads rd b = (c, rd', b')"
  by (subst client_loop.simps) (simp add: assms)







text \<open>
  C3, as amended. The raw binary path does not compare the length byte with 64. When the
  byte is above 64 and the read returns all the declared bytes, the pass sends a frame
  with that DLC and that many bytes of data to the bus, and the loop goes on.
\<close>

theorem compact_long_length_forwarded:
  assumes h: "reader_read 5 rd = (header, rd_h)" and len: "length header = 5"
    and long: "64 < unat (header ! 4)"
    and d: "reader_read (unat (header ! 4)) rd_h = (data_bytes, rd_d)"
    and all: "length data_bytes = unat (header ! 4)"
  shows "\<exists>b'. thermal_iteration addr rd b = (Continue, rd_d, b')
    \<and> (\<exists>f. send_calls b' = send_calls b @ [f] \<and> dlc f = header ! 4
          \<and> size_bv (data f) = unat (header ! 4) \<and> data_ptr (data f) = Some data_bytes)"
proof -
  let ?can_id = "push_bit 24 (unat (header ! 0)) OR push_bit 16 (unat (header ! 1))
           OR push_bit 8 (unat (header ! 2)) OR unat (header ! 3)"
  from long all have ne: "data_bytes \<noteq> []" by auto
  have it: "thermal_iteration addr rd b =
    (fst (thermal_forward ?can_id (unat (header ! 4)) data_bytes b), rd_d,
     snd (thermal_forward ?can_id (unat (header ! 4)) data_bytes b))"
    by (rule thermal_iteration_complete [OF h len d ne all])
  have fw: "fst (thermal_forward ?can_id (unat (header ! 4)) data_bytes b) = Continue
    \<and> send_calls (snd (thermal_forward ?can_id (unat (header ! 4)) data_bytes b)) =
        send_calls b @
           [\<lparr>version = struct_header_version, frame_id = of_nat ?can_id, flags = 0,
             dlc = of_nat (unat (header ! 4)), sdt = 0, vcid = 0, af = 0,
             data = \<lparr>data_ptr = Some data_bytes, size_bv = unat (header ! 4)\<rparr>\<rparr>]"
    by (rule thermal_forward_sent [OF all])
  show ?thesis
    using it fw by simp
qed

theorem compact_long_length_forwarded_witness:
  "\<exists>b'. thermal_iteration ''192.0.2.20''
        \<lparr>stream = [0, 0, 1, 0x23, 65] @ replicate 65 7, arrivals = []\<rparr>
        (quiet_bridge [] (\<lambda>w. open_writer ''192.0.2.20'') [])
      = (Continue, \<lparr>stream = [], arrivals = []\<rparr>, b')
    \<and> (\<exists>f. send_calls b' = [f] \<and> dlc f = 65 \<and> size_bv (data f) = 65
          \<and> data_ptr (data f) = Some (replicate 65 7))"
proof -
  have r: "reader_read 5 \<lparr>stream = [0, 0, 1, 0x23, 65] @ replicate 65 7, arrivals = []\<rparr>
      = ([0, 0, 1, 0x23, 65], \<lparr>stream = replicate 65 7, arrivals = []\<rparr>)"
    by (simp add: reader_read_def)
  have l: "length [0, 0, 1, 0x23, 65 :: byte] = 5" by simp
  have g: "64 < unat ([0, 0, 1, 0x23, 65 :: byte] ! 4)" by simp
  have d: "reader_read (unat ([0, 0, 1, 0x23, 65 :: byte] ! 4))
        \<lparr>stream = replicate 65 7, arrivals = []\<rparr>
      = (replicate 65 7, \<lparr>stream = [], arrivals = []\<rparr>)"
    by (simp add: reader_read_def)
  have a: "length (replicate 65 (7 :: byte)) = unat ([0, 0, 1, 0x23, 65 :: byte] ! 4)" by simp
  have s: "send_calls (quiet_bridge [] (\<lambda>w. open_writer ''192.0.2.20'') []) = []"
    by (simp add: quiet_bridge_def)
  from compact_long_length_forwarded [OF r l g d a, of "''192.0.2.20''"
      "quiet_bridge [] (\<lambda>w. open_writer ''192.0.2.20'') []"]
  show ?thesis unfolding s by simp
qed

text \<open>
  C3 as stated fails: a frame whose length byte is 65, followed by 65 bytes, is not
  rejected. It is sent to the bus with DLC 65 and the loop goes on.
\<close>

theorem length_above_64_counterexample:
  "fst (thermal_iteration ''192.0.2.20''
        \<lparr>stream = [0, 0, 1, 0x23, 65] @ replicate 65 7, arrivals = []\<rparr>
        (quiet_bridge [] (\<lambda>w. open_writer ''192.0.2.20'') [])) = Continue
   \<and> map dlc (send_calls (snd (snd (thermal_iteration ''192.0.2.20''
        \<lparr>stream = [0, 0, 1, 0x23, 65] @ replicate 65 7, arrivals = []\<rparr>
        (quiet_bridge [] (\<lambda>w. open_writer ''192.0.2.20'') []))))) = [65]
   \<and> map (\<lambda>f. size_bv (data f)) (send_calls (snd (snd (thermal_iteration ''192.0.2.20''
        \<lparr>stream = [0, 0, 1, 0x23, 65] @ replicate 65 7, arrivals = []\<rparr>
        (quiet_bridge [] (\<lambda>w. open_writer ''192.0.2.20'') []))))) = [65]"
proof -
  have r: "reader_read 5 \<lparr>stream = [0, 0, 1, 0x23, 65] @ replicate 65 7, arrivals = []\<rparr>
      = ([0, 0, 1, 0x23, 65], \<lparr>stream = replicate 65 7, arrivals = []\<rparr>)"
    by (simp add: reader_read_def)
  have d: "reader_read (unat ([0, 0, 1, 0x23, 65 :: byte] ! 4))
        \<lparr>stream = replicate 65 7, arrivals = []\<rparr>
      = (replicate 65 7, \<lparr>stream = [], arrivals = []\<rparr>)"
    by (simp add: reader_read_def)
  have it: "thermal_iteration ''192.0.2.20''
        \<lparr>stream = [0, 0, 1, 0x23, 65] @ replicate 65 7, arrivals = []\<rparr> b
      = (fst (thermal_forward 291 65 (replicate 65 7) b), \<lparr>stream = [], arrivals = []\<rparr>,
         snd (thermal_forward 291 65 (replicate 65 7) b))" for b
    using thermal_iteration_complete [OF r _ d, of "''192.0.2.20''" b] by simp
  have fw: "fst (thermal_forward 291 65 (replicate 65 7) b) = Continue
    \<and> send_calls (snd (thermal_forward 291 65 (replicate 65 7) b)) = send_calls b @
           [\<lparr>version = struct_header_version, frame_id = of_nat 291, flags = 0,
             dlc = of_nat 65, sdt = 0, vcid = 0, af = 0,
             data = \<lparr>data_ptr = Some (replicate 65 7), size_bv = 65\<rparr>\<rparr>]" for b
    by (rule thermal_forward_sent) simp
  show ?thesis
    unfolding it by (simp add: fw quiet_bridge_def)
qed


subsection \<open>What one pass of the loop does to the bridge\<close>

lemma SendFrame_cases:
  "SendFrame frame b = (err, b') \<Longrightarrow>
     send_calls b' = send_calls b @ [frame] \<and> bus_status b' = tl (bus_status b)
     \<and> err = hd (bus_status b @ [0])
     \<and> clients b' = clients b \<and> writers b' = writers b \<and> console b' = console b"
  by (cases "bus_status b") (auto simp: SendFrame_def)

lemma print_line_fields [simp]:
  "send_calls (print_line r b) = send_calls b"
  "bus_status (print_line r b) = bus_status b"
  "clients (print_line r b) = clients b"
  "writers (print_line r b) = writers b"
  "console (print_line r b) = console b @ [r]"
  by (simp_all add: print_line_def)

lemma keep_buffer_fields [simp]:
  "send_calls (keep_buffer d b) = send_calls b"
  "bus_status (keep_buffer d b) = bus_status b"
  "clients (keep_buffer d b) = clients b"
  "writers (keep_buffer d b) = writers b"
  "console (keep_buffer d b) = console b"
  by (simp_all add: keep_buffer_def)

lemma thermal_forward_cases:
  assumes "thermal_forward can_id data_len data_bytes b = (c, b')"
  shows "clients b' = clients b \<and> writers b' = writers b \<and>
     (c = Raise \<and> send_calls b' = send_calls b \<and> bus_status b' = bus_status b
      \<or> c = Continue \<and> (\<exists>f. send_calls b' = send_calls b @ [f] \<and> flags f = 0)
          \<and> bus_status b' = tl (bus_status b)
          \<and> (hd (bus_status b @ [0]) \<noteq> 0 \<longrightarrow>
                last (console b') = SendFailedRaw (hd (bus_status b @ [0]))))"
proof (cases "c_uint8_array data_len data_bytes")
  case None
  with assms show ?thesis
    by (auto simp: thermal_forward_def Let_def)
next
  case (Some data_buffer)
  let ?frame = "\<lparr>version = struct_header_version, frame_id = of_nat can_id,
                    flags = 0, dlc = of_nat data_len, sdt = 0, vcid = 0, af = 0,
                    data = \<lparr>data_ptr = Some data_buffer, size_bv = data_len\<rparr>\<rparr>"
  let ?b3 = "print_line (ForwardingRaw can_id data_len)
      (keep_buffer data_buffer (print_line (ReceivedRaw can_id data_len) b))"
  obtain err b4 where s: "SendFrame ?frame ?b3 = (err, b4)"
    by (cases "SendFrame ?frame ?b3")
  from SendFrame_cases [OF s] have f: "send_calls b4 = send_calls b @ [?frame]"
    "bus_status b4 = tl (bus_status b)" "err = hd (bus_status b @ [0])"
    "clients b4 = clients b" "writers b4 = writers b"
    by simp_all
  from assms Some s have "c = Continue"
    and "b' = (if err \<noteq> 0 then print_line (SendFailedRaw err) b4
               else print_line (SendOkRaw can_id data_len) b4)"
    by (auto simp: thermal_forward_def Let_def split: if_splits)
  with f show ?thesis by auto
qed

lemma json_can_cases:
  assumes "json_can msg b = (c, b')"
  shows "clients b' = clients b \<and> writers b' = writers b \<and>
     (c = Raise \<and> send_calls b' = send_calls b \<and> bus_status b' = bus_status b
      \<or> c = Continue \<and> (\<exists>f. send_calls b' = send_calls b @ [f] \<and> flags f = 0)
          \<and> bus_status b' = tl (bus_status b)
          \<and> (hd (bus_status b @ [0]) \<noteq> 0 \<longrightarrow>
                last (console b') = SendFailed (hd (bus_status b @ [0]))))"
proof (cases "getitem msg ''id''")
  case None
  with assms show ?thesis by (simp add: json_can_def)
next
  case v: (Some v)
  show ?thesis
  proof (cases "py_index v")
    case None
    with assms v show ?thesis by (simp add: json_can_def)
  next
    case i: (Some i)
    show ?thesis
    proof (cases "dict_get msg ''data'' (JList [])")
      case None
      with assms v i show ?thesis by (simp add: json_can_def)
    next
      case dd: (Some d)
      show ?thesis
      proof (cases "py_bytes (alloc_limit b) d")
        case None
        with assms v i dd show ?thesis by (auto simp add: json_can_def Let_def)
      next
        case od: (Some original_data)
        obtain frame_dlc original_data' data_len warned
          where blk: "dlc_block original_data (length original_data)
            = (frame_dlc, original_data', data_len, warned)"
          by (cases "dlc_block original_data (length original_data)")
        let ?b3 = "(if warned
            then print_line WarningTruncating
              (print_line (DebugConverting (of_int i) original_data)
                (print_line (DebugReceivedJson i) b))
            else print_line (DebugConverting (of_int i) original_data)
                (print_line (DebugReceivedJson i) b))"
        have b3: "send_calls ?b3 = send_calls b" "bus_status ?b3 = bus_status b"
          "clients ?b3 = clients b" "writers ?b3 = writers b"
          by simp_all
        show ?thesis
        proof (cases "c_uint8_array data_len original_data'")
          case None
          with assms v i dd od blk have "c = Raise" and "b' = ?b3"
            by (simp_all add: json_can_def Let_def)
          with b3 show ?thesis by simp
        next
          case (Some data_buffer)
          let ?frame = "\<lparr>version = struct_header_version, frame_id = of_int i, flags = 0,
            dlc = of_nat frame_dlc, sdt = 0, vcid = 0, af = 0,
            data = \<lparr>data_ptr = Some data_buffer, size_bv = data_len\<rparr>\<rparr>"
          let ?b5 = "print_line (SendingFrame (of_int i) data_len) (keep_buffer data_buffer ?b3)"
          obtain err b6 where s: "SendFrame ?frame ?b5 = (err, b6)"
            by (cases "SendFrame ?frame ?b5")
          from SendFrame_cases [OF s] b3 have f: "send_calls b6 = send_calls b @ [?frame]"
            "bus_status b6 = tl (bus_status b)" "err = hd (bus_status b @ [0])"
            "clients b6 = clients b" "writers b6 = writers b"
            by simp_all
          from assms v i dd od blk Some s have "c = Continue"
            and "b' = (if err \<noteq> 0 then print_line (SendFailed err) b6
               else print_line (SendOk (of_int i) data_len) b6)"
            by (simp_all add: json_can_def Let_def split: if_splits)
          with f show ?thesis by auto
        qed
      qed
    qed
  qed
qed


lemma thermal_iteration_cases:
  assumes "thermal_iteration addr rd b = (c, rd', b')"
  shows "clients b' = clients b \<and> writers b' = writers b \<and>
     (send_calls b' = send_calls b \<and> bus_status b' = bus_status b
      \<or> c = Continue \<and> (\<exists>f. send_calls b' = send_calls b @ [f] \<and> flags f = 0)
          \<and> bus_status b' = tl (bus_status b)
          \<and> (hd (bus_status b @ [0]) \<noteq> 0 \<longrightarrow>
                last (console b') = SendFailedRaw (hd (bus_status b @ [0]))))"
proof -
  obtain header rd1 where h: "reader_read 5 rd = (header, rd1)"
    by (cases "reader_read 5 rd")
  obtain data_bytes rd2 where d: "reader_read (unat (header ! 4)) rd1 = (data_bytes, rd2)"
    by (cases "reader_read (unat (header ! 4)) rd1")
  let ?can_id = "push_bit 24 (unat (header ! 0)) OR push_bit 16 (unat (header ! 1))
           OR push_bit 8 (unat (header ! 2)) OR unat (header ! 3)"
  obtain c1 b1 where f: "thermal_forward ?can_id (unat (header ! 4)) data_bytes b = (c1, b1)"
    by (cases "thermal_forward ?can_id (unat (header ! 4)) data_bytes b")
  from assms h d f have "b' = print_line (IncompleteHeader addr) b
      \<or> b' = print_line (IncompleteData addr) b \<or> (c = c1 \<and> b' = b1)"
    by (auto simp: thermal_iteration_def Let_def split: if_splits)
  then show ?thesis
    using thermal_forward_cases [OF f] by auto
qed

lemma json_iteration_cases:
  assumes "json_iteration loads rd b = (c, rd', b')"
  shows "clients b' = clients b \<and> writers b' = writers b \<and>
     (send_calls b' = send_calls b \<and> bus_status b' = bus_status b
      \<or> c = Continue \<and> (\<exists>f. send_calls b' = send_calls b @ [f] \<and> flags f = 0)
          \<and> bus_status b' = tl (bus_status b)
          \<and> (hd (bus_status b @ [0]) \<noteq> 0 \<longrightarrow>
                last (console b') = SendFailed (hd (bus_status b @ [0]))))"
proof -
  have "b' = b \<or> (\<exists>msg. json_can msg b = (c, b'))"
    using assms
    by (auto simp: json_iteration_def split: prod.splits if_splits option.splits)
  then show ?thesis
    using json_can_cases by blast
qed

lemma loop_body_cases:
  assumes "loop_body is_thermal addr loads rd b = (c, rd', b')"
  shows "clients b' = clients b \<and> writers b' = writers b \<and>
     (send_calls b' = send_calls b \<and> bus_status b' = bus_status b
      \<or> c = Continue \<and> (\<exists>f. send_calls b' = send_calls b @ [f] \<and> flags f = 0)
          \<and> bus_status b' = tl (bus_status b)
          \<and> (hd (bus_status b @ [0]) \<noteq> 0 \<longrightarrow>
                last (console b') =
                  (if is_thermal then SendFailedRaw (hd (bus_status b @ [0]))
                   else SendFailed (hd (bus_status b @ [0])))))"
proof (cases is_thermal)
  case True
  with assms have "thermal_iteration addr rd b = (c, rd', b')"
    by (simp add: loop_body_def)
  from thermal_iteration_cases [OF this] True show ?thesis by simp
next
  case False
  with assms have "json_iteration loads rd b = (c, rd', b')"
    by (simp add: loop_body_def)
  from json_iteration_cases [OF this] False show ?thesis by simp
qed



lemma loop_body_sent:
  assumes r: "loop_body is_thermal addr loads rd b = (c, rd', b')"
  shows "\<exists>fs. send_calls b' = send_calls b @ fs \<and> list_all (\<lambda>f. flags f = 0) fs"
proof -
  from loop_body_cases [OF r]
  consider "send_calls b' = send_calls b"
    | f where "send_calls b' = send_calls b @ [f]" and "flags f = 0"
    by blast
  then show ?thesis
  proof cases
    case 1
    then show ?thesis by (intro exI [of _ "[]"]) simp
  next
    case 2
    then show ?thesis by (intro exI [of _ "[f]"]) simp
  qed
qed

lemma client_loop_sent:
  "clients (snd (snd (client_loop is_thermal addr loads rd b))) = clients b
   \<and> writers (snd (snd (client_loop is_thermal addr loads rd b))) = writers b
   \<and> (\<exists>fs. send_calls (snd (snd (client_loop is_thermal addr loads rd b))) = send_calls b @ fs
         \<and> list_all (\<lambda>f. flags f = 0) fs)"
proof (induction is_thermal addr loads rd b rule: client_loop.induct)
  case (1 is_thermal addr loads rd b)
  obtain c rd' b' where r: "loop_body is_thermal addr loads rd b = (c, rd', b')"
    by (cases "loop_body is_thermal addr loads rd b")
  from loop_body_cases [OF r] have k: "clients b' = clients b" "writers b' = writers b"
    by simp_all
  from loop_body_sent [OF r] obtain fs1 where fs1: "send_calls b' = send_calls b @ fs1"
    "list_all (\<lambda>f. flags f = 0) fs1"
    by blast
  show ?case
  proof (cases "c = Continue")
    case True
    with r have eq: "client_loop is_thermal addr loads rd b
        = client_loop is_thermal addr loads rd' b'"
      by (simp add: client_loop_continue)
    have "fst (c, rd', b') = Continue" using True by simp
    from "1.IH" [OF r [symmetric] this]
    have ih: "clients (snd (snd (client_loop is_thermal addr loads rd' b'))) = clients b'"
      "writers (snd (snd (client_loop is_thermal addr loads rd' b'))) = writers b'"
      and "\<exists>fs. send_calls (snd (snd (client_loop is_thermal addr loads rd' b'))) = send_calls b' @ fs
         \<and> list_all (\<lambda>f. flags f = 0) fs"
      by simp_all
    then obtain fs2
      where fs2: "send_calls (snd (snd (client_loop is_thermal addr loads rd' b'))) = send_calls b' @ fs2"
        "list_all (\<lambda>f. flags f = 0) fs2"
      by blast
    have "send_calls (snd (snd (client_loop is_thermal addr loads rd' b'))) = send_calls b @ (fs1 @ fs2)"
      "list_all (\<lambda>f. flags f = 0) (fs1 @ fs2)"
      using fs1 fs2 by simp_all
    then have "\<exists>fs. send_calls (snd (snd (client_loop is_thermal addr loads rd' b'))) = send_calls b @ fs
         \<and> list_all (\<lambda>f. flags f = 0) fs"
      by blast
    with k ih show ?thesis unfolding eq by simp
  next
    case False
    with r have eq: "client_loop is_thermal addr loads rd b = (c, rd', b')"
      by (rule client_loop_stop)
    from fs1 have "\<exists>fs. send_calls b' = send_calls b @ fs \<and> list_all (\<lambda>f. flags f = 0) fs"
      by blast
    with k show ?thesis unfolding eq by simp
  qed
qed

text \<open>
  C8. When the transport answers the send of a pass with a status other than 0, the pass
  has called the send primitive once, prints the failure, leaves the clients and their
  writers as they were, and the loop goes on with the rest of the stream. This holds on
  the raw binary path and on the JSON path.
\<close>

theorem bus_send_failure_continues:
  assumes r: "loop_body is_thermal addr loads rd b = (c, rd_n, b_n)"
    and st: "bus_status b = err # errs" and err: "err \<noteq> 0"
    and sent: "send_calls b_n \<noteq> send_calls b"
  shows "c = Continue \<and> (\<exists>f. send_calls b_n = send_calls b @ [f])
    \<and> bus_status b_n = errs
    \<and> last (console b_n) = (if is_thermal then SendFailedRaw err else SendFailed err)
    \<and> clients b_n = clients b \<and> writers b_n = writers b
    \<and> client_loop is_thermal addr loads rd b = client_loop is_thermal addr loads rd_n b_n"
proof -
  from loop_body_cases [OF r] sent st err
  have c: "c = Continue" and f: "\<exists>f. send_calls b_n = send_calls b @ [f]"
    and s: "bus_status b_n = errs"
    and l: "last (console b_n) = (if is_thermal then SendFailedRaw err else SendFailed err)"
    and k: "clients b_n = clients b" "writers b_n = writers b"
    by auto
  from r c have "client_loop is_thermal addr loads rd b = client_loop is_thermal addr loads rd_n b_n"
    by (simp add: client_loop_continue)
  with c f s l k show ?thesis by simp
qed

text \<open>
  C9. Every frame that \<^verbatim>\<open>handle_client\<close> hands to the send primitive has the flags 0,
  whatever the peer's address, the stream and the parsed messages are.
\<close>

theorem forwarded_flags_zero:
  "\<exists>fs. send_calls (snd (handle_client w loads rd b)) = send_calls b @ fs
     \<and> list_all (\<lambda>f. flags f = 0) fs"
proof (cases "peername (writers b w)")
  case None
  then have "send_calls (snd (handle_client w loads rd b)) = send_calls b @ []"
    by (simp add: handle_client_def Let_def)
  then show ?thesis by (intro exI [of _ "[]"]) simp
next
  case (Some host)
  let ?b3 = "(print_line (NewConnection (Some host)) b)
      \<lparr>clients := (if w \<in> set (clients b) then clients b else clients b @ [w]),
       data_buffers := []\<rparr>"
  let ?r = "client_loop (startswith host ''192.0.2.'') host loads rd ?b3"
  from client_loop_sent [of "startswith host ''192.0.2.''" host loads rd ?b3]
  obtain fs where fs: "send_calls (snd (snd ?r)) = send_calls b @ fs"
    "list_all (\<lambda>f. flags f = 0) fs"
    by auto
  have "send_calls (snd (handle_client w loads rd b)) = send_calls (snd (snd ?r))"
    using Some by (simp add: handle_client_def Let_def split: prod.splits)
  with fs show ?thesis by auto
qed


theorem bus_send_failure_continues_witness:
  "fst (loop_body True ''192.0.2.20'' (\<lambda>bs. None)
        \<lparr>stream = [0, 0, 1, 0x23, 2, 10, 20], arrivals = []\<rparr>
        (quiet_bridge [] (\<lambda>w. open_writer ''192.0.2.20'') [5])) = Continue
   \<and> last (console (snd (snd (loop_body True ''192.0.2.20'' (\<lambda>bs. None)
        \<lparr>stream = [0, 0, 1, 0x23, 2, 10, 20], arrivals = []\<rparr>
        (quiet_bridge [] (\<lambda>w. open_writer ''192.0.2.20'') [5]))))) = SendFailedRaw 5
   \<and> fst (loop_body False ''127.0.0.1''
        (\<lambda>bs. Some (JDict [(''type'', JStr ''can''), (''id'', JInt 291),
                            (''data'', JList [JInt 10, JInt 20])]))
        \<lparr>stream = [0, 0, 0, 1, 123], arrivals = []\<rparr>
        (quiet_bridge [] (\<lambda>w. open_writer ''127.0.0.1'') [5])) = Continue
   \<and> last (console (snd (snd (loop_body False ''127.0.0.1''
        (\<lambda>bs. Some (JDict [(''type'', JStr ''can''), (''id'', JInt 291),
                            (''data'', JList [JInt 10, JInt 20])]))
        \<lparr>stream = [0, 0, 0, 1, 123], arrivals = []\<rparr>
        (quiet_bridge [] (\<lambda>w. open_writer ''127.0.0.1'') [5]))))) = SendFailed 5"
proof -
  let ?bt = "quiet_bridge [] (\<lambda>w. open_writer ''192.0.2.20'') [5]"
  let ?T = "loop_body True ''192.0.2.20'' (\<lambda>bs. None)
        \<lparr>stream = [0, 0, 1, 0x23, 2, 10, 20], arrivals = []\<rparr> ?bt"
  let ?bj = "quiet_bridge [] (\<lambda>w. open_writer ''127.0.0.1'') [5]"
  let ?J = "loop_body False ''127.0.0.1''
        (\<lambda>bs. Some (JDict [(''type'', JStr ''can''), (''id'', JInt 291),
                            (''data'', JList [JInt 10, JInt 20])]))
        \<lparr>stream = [0, 0, 0, 1, 123], arrivals = []\<rparr> ?bj"
  have five: "(5 :: int) \<noteq> 0" by simp
  have rt: "?T = (fst ?T, fst (snd ?T), snd (snd ?T))" by simp
  have st: "bus_status ?bt = 5 # []" by (simp add: quiet_bridge_def)
  have nt: "send_calls (snd (snd ?T)) \<noteq> send_calls ?bt"
    by (simp add: loop_body_def thermal_iteration_def reader_read_def thermal_forward_def
        c_uint8_array_def SendFrame_def quiet_bridge_def Let_def)
  have rj: "?J = (fst ?J, fst (snd ?J), snd (snd ?J))" by simp
  have sj: "bus_status ?bj = 5 # []" by (simp add: quiet_bridge_def)
  have nj: "send_calls (snd (snd ?J)) \<noteq> send_calls ?bj"
    by (simp add: loop_body_def json_iteration_def reader_read_def unpack_I_def getitem_def
        json_can_def py_index_def dict_get_def py_bytes_def byte_of_def dlc_block_def
        c_uint8_array_def SendFrame_def quiet_bridge_def Let_def)
  from bus_send_failure_continues [OF rt st five nt]
  have t: "fst ?T = Continue" "last (console (snd (snd ?T))) = SendFailedRaw 5"
    by simp_all
  from bus_send_failure_continues [OF rj sj five nj]
  have j: "fst ?J = Continue" "last (console (snd (snd ?J))) = SendFailed 5"
    by simp_all
  from t j show ?thesis by blast
qed

theorem forwarded_flags_zero_witness:
  "\<exists>fs. send_calls (snd (handle_client 1 (\<lambda>bs. None)
        \<lparr>stream = [0, 0, 1, 0x23, 2, 10, 20], arrivals = []\<rparr>
        (quiet_bridge [] (\<lambda>w. open_writer ''192.0.2.20'') []))) = fs
     \<and> list_all (\<lambda>f. flags f = 0) fs"
  using forwarded_flags_zero [of 1 "\<lambda>bs. None"
      "\<lparr>stream = [0, 0, 1, 0x23, 2, 10, 20], arrivals = []\<rparr>"
      "quiet_bridge [] (\<lambda>w. open_writer ''192.0.2.20'') []"]
  by (simp add: quiet_bridge_def)


subsection \<open>The JSON path\<close>

lemma those_map_length:
  "those (map f xs) = Some ys \<Longrightarrow> length ys = length xs"
  by (induction xs arbitrary: ys) (auto split: option.splits)

lemma those_replicate:
  "those (replicate n (Some x)) = Some (replicate n x)"
  by (induction n) simp_all

lemma json_iteration_message:
  assumes "reader_read 4 rd = (length_bytes, rd_l)"
    and "unpack_I length_bytes = Some msg_length"
    and "reader_read msg_length rd_l = (msg_bytes, rd_m)"
    and "msg_bytes \<noteq> []" and "loads msg_bytes = Some msg"
    and "getitem msg ''type'' = Some t"
  shows "json_iteration loads rd b =
    (if t = JStr ''can'' then (fst (json_can msg b), rd_m, snd (json_can msg b))
     else (Continue, rd_m, b))"
proof -
  from assms(2) have "length_bytes \<noteq> []"
    by (auto simp: unpack_I_def split: if_splits)
  with assms show ?thesis
    by (simp add: json_iteration_def split: prod.splits)
qed

lemma json_can_long:
  assumes v: "getitem msg ''id'' = Some v" and i: "py_index v = Some i"
    and d: "getitem msg ''data'' = Some (JList xs)"
    and od: "those (map byte_of xs) = Some original_data"
    and long: "64 < length xs"
  shows "fst (json_can msg b) = Continue
    \<and> send_calls (snd (json_can msg b)) = send_calls b @
        [\<lparr>version = struct_header_version, frame_id = of_int i, flags = 0, dlc = 15,
          sdt = 0, vcid = 0, af = 0,
          data = \<lparr>data_ptr = Some (take 64 original_data), size_bv = 64\<rparr>\<rparr>]
    \<and> WarningTruncating \<in> set (console (snd (json_can msg b)))"
proof -
  from d have dg: "dict_get msg ''data'' (JList []) = Some (JList xs)"
    by (cases msg) (simp_all add: getitem_def dict_get_def)
  from od have pb: "py_bytes (alloc_limit b) (JList xs) = Some original_data"
    by (simp add: py_bytes_def)
  from those_map_length [OF od] long have len: "64 < length original_data"
    by simp
  then have blk: "dlc_block original_data (length original_data)
      = (15, take 64 original_data, 64, True)"
    by (simp add: dlc_block_def)
  from len have arr: "c_uint8_array 64 (take 64 original_data) = Some (take 64 original_data)"
    by (simp add: c_uint8_array_def)
  show ?thesis
    by (cases "bus_status b")
      (simp_all add: json_can_def v i dg pb blk arr Let_def SendFrame_def)
qed

text \<open>
  C6. A JSON message of type \<^verbatim>\<open>can\<close> with an integer identifier and a data list of more
  than 64 integers from 0 to 255 is sent to the bus as a frame with the first 64 bytes
  of the data, size 64 and DLC 15; the warning is printed, and the loop goes on behind
  the message.
\<close>

theorem long_json_data_truncated:
  assumes "reader_read 4 rd = (length_bytes, rd_l)"
    and "unpack_I length_bytes = Some msg_length"
    and "reader_read msg_length rd_l = (msg_bytes, rd_m)"
    and "msg_bytes \<noteq> []" and "loads msg_bytes = Some msg"
    and ty: "getitem msg ''type'' = Some (JStr ''can'')"
    and v: "getitem msg ''id'' = Some v" and i: "py_index v = Some i"
    and d: "getitem msg ''data'' = Some (JList xs)"
    and od: "those (map byte_of xs) = Some original_data"
    and long: "64 < length xs"
  shows "\<exists>b'. json_iteration loads rd b = (Continue, rd_m, b')
    \<and> (\<exists>f. send_calls b' = send_calls b @ [f] \<and> dlc f = 15 \<and> size_bv (data f) = 64
          \<and> data_ptr (data f) = Some (take 64 original_data) \<and> frame_id f = of_int i)
    \<and> WarningTruncating \<in> set (console b')
    \<and> client_loop False addr loads rd b = client_loop False addr loads rd_m b'"
proof -
  have it: "json_iteration loads rd b = (fst (json_can msg b), rd_m, snd (json_can msg b))"
    using json_iteration_message [where loads = loads, OF assms(1-5) ty] by simp
  note jc = json_can_long [OF v i d od long, of b]
  from it jc have c: "json_iteration loads rd b = (Continue, rd_m, snd (json_can msg b))"
    by simp
  then have "client_loop False addr loads rd b
      = client_loop False addr loads rd_m (snd (json_can msg b))"
    by (intro client_loop_continue) (simp add: loop_body_def)
  with c jc show ?thesis by simp
qed

text \<open>
  C7. A JSON message that is a dictionary with a \<^verbatim>\<open>type\<close> other than \<^verbatim>\<open>can\<close> is
  skipped: the pass leaves the bridge as it was (nothing is sent, nothing is printed,
  no writer is closed) and the loop goes on behind the message.
\<close>

theorem other_type_skipped:
  assumes "reader_read 4 rd = (length_bytes, rd_l)"
    and "unpack_I length_bytes = Some msg_length"
    and "reader_read msg_length rd_l = (msg_bytes, rd_m)"
    and "msg_bytes \<noteq> []" and "loads msg_bytes = Some msg"
    and ty: "getitem msg ''type'' = Some t" and other: "t \<noteq> JStr ''can''"
  shows "json_iteration loads rd b = (Continue, rd_m, b)
    \<and> client_loop False addr loads rd b = client_loop False addr loads rd_m b"
proof -
  have it: "json_iteration loads rd b = (Continue, rd_m, b)"
    using json_iteration_message [where loads = loads, OF assms(1-5) ty] other by simp
  then have "client_loop False addr loads rd b = client_loop False addr loads rd_m b"
    by (intro client_loop_continue) (simp add: loop_body_def)
  with it show ?thesis by simp
qed


theorem long_json_data_truncated_witness:
  "\<exists>b'. json_iteration
        (\<lambda>bs. Some (JDict [(''type'', JStr ''can''), (''id'', JInt 291),
                            (''data'', JList (replicate 100 (JInt 7)))]))
        \<lparr>stream = [0, 0, 0, 1, 123], arrivals = []\<rparr>
        (quiet_bridge [] (\<lambda>w. open_writer ''127.0.0.1'') [])
      = (Continue, \<lparr>stream = [], arrivals = []\<rparr>, b')
    \<and> (\<exists>f. send_calls b' = [f] \<and> dlc f = 15 \<and> size_bv (data f) = 64
          \<and> data_ptr (data f) = Some (replicate 64 7) \<and> frame_id f = 291)
    \<and> WarningTruncating \<in> set (console b')"
proof -
  let ?msg = "JDict [(''type'', JStr ''can''), (''id'', JInt 291),
                     (''data'', JList (replicate 100 (JInt 7)))]"
  let ?b = "quiet_bridge [] (\<lambda>w. open_writer ''127.0.0.1'') []"
  have r1: "reader_read 4 \<lparr>stream = [0, 0, 0, 1, 123], arrivals = []\<rparr>
      = ([0, 0, 0, 1], \<lparr>stream = [123], arrivals = []\<rparr>)"
    by (simp add: reader_read_def)
  have u: "unpack_I [0, 0, 0, 1] = Some 1"
    by (simp add: unpack_I_def)
  have r2: "reader_read 1 \<lparr>stream = [123], arrivals = []\<rparr>
      = ([123], \<lparr>stream = [], arrivals = []\<rparr>)"
    by (simp add: reader_read_def)
  have ne: "[123 :: byte] \<noteq> []" by simp
  have l: "(\<lambda>bs. Some ?msg) [123 :: byte] = Some ?msg" by simp
  have ty: "getitem ?msg ''type'' = Some (JStr ''can'')"
    by (simp add: getitem_def)
  have v: "getitem ?msg ''id'' = Some (JInt 291)"
    by (simp add: getitem_def)
  have i: "py_index (JInt 291) = Some 291"
    by (simp add: py_index_def)
  have d: "getitem ?msg ''data'' = Some (JList (replicate 100 (JInt 7)))"
    by (simp add: getitem_def)
  have od: "those (map byte_of (replicate 100 (JInt 7))) = Some (replicate 100 7)"
    by (simp add: byte_of_def py_index_def those_replicate)
  have long: "64 < length (replicate 100 (JInt 7))" by simp
  have s: "send_calls ?b = []" by (simp add: quiet_bridge_def)
  from long_json_data_truncated [where loads = "\<lambda>bs. Some ?msg" and b = ?b,
      OF r1 u r2 ne l ty v i d od long]
  obtain b' where it: "json_iteration (\<lambda>bs. Some ?msg)
        \<lparr>stream = [0, 0, 0, 1, 123], arrivals = []\<rparr> ?b
      = (Continue, \<lparr>stream = [], arrivals = []\<rparr>, b')"
    and f: "\<exists>f. send_calls b' = send_calls ?b @ [f] \<and> dlc f = 15 \<and> size_bv (data f) = 64
          \<and> data_ptr (data f) = Some (take 64 (replicate 100 7)) \<and> frame_id f = of_int 291"
    and w: "WarningTruncating \<in> set (console b')"
    by blast
  from f have "\<exists>f. send_calls b' = [f] \<and> dlc f = 15 \<and> size_bv (data f) = 64
          \<and> data_ptr (data f) = Some (replicate 64 7) \<and> frame_id f = 291"
    unfolding s by simp
  with it w show ?thesis by blast
qed

theorem other_type_skipped_witness:
  "json_iteration (\<lambda>bs. Some (JDict [(''type'', JStr ''ping'')]))
        \<lparr>stream = [0, 0, 0, 1, 123], arrivals = []\<rparr>
        (quiet_bridge [] (\<lambda>w. open_writer ''127.0.0.1'') [])
      = (Continue, \<lparr>stream = [], arrivals = []\<rparr>,
         quiet_bridge [] (\<lambda>w. open_writer ''127.0.0.1'') [])"
proof -
  let ?msg = "JDict [(''type'', JStr ''ping'')]"
  have r1: "reader_read 4 \<lparr>stream = [0, 0, 0, 1, 123], arrivals = []\<rparr>
      = ([0, 0, 0, 1], \<lparr>stream = [123], arrivals = []\<rparr>)"
    by (simp add: reader_read_def)
  have u: "unpack_I [0, 0, 0, 1] = Some 1"
    by (simp add: unpack_I_def)
  have r2: "reader_read 1 \<lparr>stream = [123], arrivals = []\<rparr>
      = ([123], \<lparr>stream = [], arrivals = []\<rparr>)"
    by (simp add: reader_read_def)
  have ne: "[123 :: byte] \<noteq> []" by simp
  have l: "(\<lambda>bs. Some ?msg) [123 :: byte] = Some ?msg" by simp
  have ty: "getitem ?msg ''type'' = Some (JStr ''ping'')"
    by (simp add: getitem_def)
  have other: "JStr ''ping'' \<noteq> JStr ''can''" by simp
  from other_type_skipped [where loads = "\<lambda>bs. Some ?msg", OF r1 u r2 ne l ty other,
      THEN conjunct1]
  show ?thesis .
qed

subsection \<open>The fan-out\<close>

lemma get_dlc_size_le: "get_dlc_size n \<le> 64"
  by (simp add: get_dlc_size_def)

lemma data_size_of_le: "data_size_of frame \<le> 64"
  using get_dlc_size_le [of "unat (dlc frame)"] by (simp add: data_size_of_def min_def)

lemma length_data_array_of: "length (data_array_of frame) = data_size_of frame"
  by (cases "data_ptr (data frame)") (simp_all add: data_array_of_def data_size_of_def)

lemma raw_frame_of_eq:
  "raw_frame_of frame =
     Some (pack_I (frame_id frame) @ [of_nat (data_size_of frame)] @ data_array_of frame)"
proof -
  have "data_size_of frame < 256"
    using data_size_of_le [of frame] by simp
  moreover have "concat (map (\<lambda>byte. [byte]) (data_array_of frame)) = data_array_of frame"
    by (induction "data_array_of frame") simp_all
  ultimately show ?thesis
    by (simp add: raw_frame_of_def pack_B_def)
qed

lemma map_nth_take:
  "n \<le> length xs \<Longrightarrow> map (\<lambda>i. xs ! i) [0..<n] = take n xs"
  by (simp add: list_eq_iff_nth_eq)

lemma data_array_of_take:
  assumes "data_ptr (data frame) = Some buf" and "data_size_of frame \<le> length buf"
  shows "data_array_of frame = take (data_size_of frame) buf"
  using assms by (simp add: data_array_of_def map_nth_take)

lemma data_array_of_consistent:
  assumes "data_ptr (data frame) = Some payload" and "size_bv (data frame) = length payload"
    and "get_dlc_size (unat (dlc frame)) = length payload"
  shows "data_size_of frame = length payload" and "data_array_of frame = payload"
proof -
  from assms show s: "data_size_of frame = length payload"
    by (simp add: data_size_of_def)
  from assms s show "data_array_of frame = payload"
    by (cases "payload = []") (simp_all add: data_array_of_def map_nth)
qed

lemma write_to_client_fields:
  "clients (fst (write_to_client raw w s)) = clients (fst s)"
  "send_calls (fst (write_to_client raw w s)) = send_calls (fst s)"
  "bus_status (fst (write_to_client raw w s)) = bus_status (fst s)"
  "writers (fst (write_to_client raw w s)) =
     (if write_raises (writers (fst s) w) then writers (fst s)
      else (writers (fst s))
        (w := (writers (fst s) w)
           \<lparr>written := written (writers (fst s) w) @ raw,
            closed := closed (writers (fst s) w) \<or> send_fails (writers (fst s) w)\<rparr>))"
  by (cases s; simp add: write_to_client_def Let_def)+

lemma write_to_client_console:
  "set (console (fst s)) \<subseteq> set (console (fst (write_to_client raw w s)))"
  "write_raises (writers (fst s) w) \<Longrightarrow>
     ErrorSending \<in> set (console (fst (write_to_client raw w s)))"
  by (cases s; auto simp add: write_to_client_def Let_def)+

lemma fan_out_fields:
  "clients (fst (fold (write_to_client raw) ws s)) = clients (fst s)
   \<and> send_calls (fst (fold (write_to_client raw) ws s)) = send_calls (fst s)
   \<and> bus_status (fst (fold (write_to_client raw) ws s)) = bus_status (fst s)
   \<and> set (console (fst s)) \<subseteq> set (console (fst (fold (write_to_client raw) ws s)))"
proof (induction ws arbitrary: s)
  case Nil
  show ?case by simp
next
  case (Cons x xs)
  from Cons [of "write_to_client raw x s"] write_to_client_console(1) [of s raw x]
  show ?case by (auto simp add: write_to_client_fields)
qed

lemma fan_out_writers:
  assumes "distinct ws"
  shows "writers (fst (fold (write_to_client raw) ws s)) h =
     (if h \<in> set ws \<and> \<not> write_raises (writers (fst s) h)
      then (writers (fst s) h)
        \<lparr>written := written (writers (fst s) h) @ raw,
         closed := closed (writers (fst s) h) \<or> send_fails (writers (fst s) h)\<rparr>
      else writers (fst s) h)"
  using assms
proof (induction ws arbitrary: s)
  case Nil
  show ?case by simp
next
  case (Cons x xs)
  then have ih: "writers (fst (fold (write_to_client raw) xs (write_to_client raw x s))) h =
     (if h \<in> set xs \<and> \<not> write_raises (writers (fst (write_to_client raw x s)) h)
      then (writers (fst (write_to_client raw x s)) h)
        \<lparr>written := written (writers (fst (write_to_client raw x s)) h) @ raw,
         closed := closed (writers (fst (write_to_client raw x s)) h)
           \<or> send_fails (writers (fst (write_to_client raw x s)) h)\<rparr>
      else writers (fst (write_to_client raw x s)) h)"
    and x: "x \<notin> set xs"
    by simp_all
  show ?case
  proof (cases "h = x")
    case True
    with x ih show ?thesis by (simp add: write_to_client_fields)
  next
    case False
    with ih show ?thesis by (simp add: write_to_client_fields)
  qed
qed

lemma fan_out_reports:
  assumes "w \<in> set ws" and "write_raises (writers (fst s) w)" and "distinct ws"
  shows "ErrorSending \<in> set (console (fst (fold (write_to_client raw) ws s)))"
  using assms
proof (induction ws arbitrary: s)
  case Nil
  then show ?case by simp
next
  case (Cons x xs)
  show ?case
  proof (cases "w = x")
    case True
    with Cons.prems have "ErrorSending \<in> set (console (fst (write_to_client raw x s)))"
      by (simp add: write_to_client_console)
    with fan_out_fields [of raw xs "write_to_client raw x s"] show ?thesis by auto
  next
    case False
    with Cons.prems have "w \<in> set xs" and "distinct xs"
      and "write_raises (writers (fst (write_to_client raw x s)) w)"
      by (simp_all add: write_to_client_fields)
    from Cons.IH [OF this(1) this(3) this(2)] show ?thesis by simp
  qed
qed

lemma handle_can_message_eq:
  "handle_can_message frame b =
     print_line (DebugSentCount (snd (fold (write_to_client
         (pack_I (frame_id frame) @ [of_nat (data_size_of frame)] @ data_array_of frame))
         (clients b)
         (if data_ptr (data frame) \<noteq> None \<and> data_size_of frame > 0
          then print_line (DebugFrameData (data_array_of frame))
            (print_line (DebugHandling (frame_id frame) (dlc frame) (data_size_of frame)) b)
          else print_line (DebugHandling (frame_id frame) (dlc frame) (data_size_of frame)) b,
          0))))
       (fst (fold (write_to_client
         (pack_I (frame_id frame) @ [of_nat (data_size_of frame)] @ data_array_of frame))
         (clients b)
         (if data_ptr (data frame) \<noteq> None \<and> data_size_of frame > 0
          then print_line (DebugFrameData (data_array_of frame))
            (print_line (DebugHandling (frame_id frame) (dlc frame) (data_size_of frame)) b)
          else print_line (DebugHandling (frame_id frame) (dlc frame) (data_size_of frame)) b,
          0)))"
  by (simp add: handle_can_message_def raw_frame_of_eq Let_def split: prod.splits)


lemma handle_can_message_writers:
  assumes "distinct (clients b)"
  shows "writers (handle_can_message frame b) h =
     (if h \<in> set (clients b) \<and> \<not> write_raises (writers b h)
      then (writers b h)
        \<lparr>written := written (writers b h)
           @ pack_I (frame_id frame) @ [of_nat (data_size_of frame)] @ data_array_of frame,
         closed := closed (writers b h) \<or> send_fails (writers b h)\<rparr>
      else writers b h)"
proof -
  let ?b2 = "(if data_ptr (data frame) \<noteq> None \<and> data_size_of frame > 0
          then print_line (DebugFrameData (data_array_of frame))
            (print_line (DebugHandling (frame_id frame) (dlc frame) (data_size_of frame)) b)
          else print_line (DebugHandling (frame_id frame) (dlc frame) (data_size_of frame)) b)"
  have c: "clients ?b2 = clients b" and w: "writers ?b2 = writers b"
    by simp_all
  from assms c have "distinct (clients ?b2)" by simp
  from fan_out_writers [OF this, of _ "(?b2, 0)" h] c w
  show ?thesis
    by (simp add: handle_can_message_eq)
qed

lemma handle_can_message_reports:
  assumes "distinct (clients b)" and "w \<in> set (clients b)" and "write_raises (writers b w)"
  shows "ErrorSending \<in> set (console (handle_can_message frame b))"
proof -
  let ?b2 = "(if data_ptr (data frame) \<noteq> None \<and> data_size_of frame > 0
          then print_line (DebugFrameData (data_array_of frame))
            (print_line (DebugHandling (frame_id frame) (dlc frame) (data_size_of frame)) b)
          else print_line (DebugHandling (frame_id frame) (dlc frame) (data_size_of frame)) b)"
  have c: "clients ?b2 = clients b" and w: "writers ?b2 = writers b"
    by simp_all
  from assms c w have "w \<in> set (clients ?b2)" "write_raises (writers (fst (?b2, 0 :: nat)) w)"
    "distinct (clients ?b2)"
    by simp_all
  from fan_out_reports [OF this(1) this(2) this(3)] c
  show ?thesis
    by (simp add: handle_can_message_eq)
qed



text \<open>
  C4. \<^verbatim>\<open>handle_can_message\<close> builds one byte string from the frame and hands it to
  \<^verbatim>\<open>write\<close> for every registered client whose \<^verbatim>\<open>write\<close> does not raise, whatever the
  client's address is. The bytes are the four bytes of the identifier, most
  significant first (the identifier that the raw binary reader computes from them is
  the frame's), one byte with the length, and that many bytes from the start of the
  buffer, where the length is the smaller of the size that the DLC stands for and the
  size of the byte vector; without a buffer the length is 0 and no byte follows. For a
  frame whose DLC and size agree with its buffer these are the identifier, the length
  of the payload and the payload.
\<close>

theorem fan_out_compact_to_all:
  assumes "distinct (clients b)"
  shows "\<exists>raw. raw_frame_of frame = Some raw
    \<and> (\<forall>w \<in> set (clients b). \<not> write_raises (writers b w) \<longrightarrow>
          written (writers (handle_can_message frame b) w) = written (writers b w) @ raw)
    \<and> take 4 raw = pack_I (frame_id frame)
    \<and> (of_nat (push_bit 24 (unat (raw ! 0)) OR push_bit 16 (unat (raw ! 1))
           OR push_bit 8 (unat (raw ! 2)) OR unat (raw ! 3)) :: 32 word) = frame_id frame
    \<and> (data_ptr (data frame) = None \<longrightarrow> raw = pack_I (frame_id frame) @ [0])
    \<and> (\<forall>buf. data_ptr (data frame) = Some buf
          \<and> min (get_dlc_size (unat (dlc frame))) (size_bv (data frame)) \<le> length buf \<longrightarrow>
          raw = pack_I (frame_id frame)
            @ [of_nat (min (get_dlc_size (unat (dlc frame))) (size_bv (data frame)))]
            @ take (min (get_dlc_size (unat (dlc frame))) (size_bv (data frame))) buf)
    \<and> (\<forall>payload. data_ptr (data frame) = Some payload
          \<and> size_bv (data frame) = length payload
          \<and> get_dlc_size (unat (dlc frame)) = length payload \<longrightarrow>
          raw = pack_I (frame_id frame) @ [of_nat (length payload)] @ payload)"
proof -
  let ?raw = "pack_I (frame_id frame) @ [of_nat (data_size_of frame)] @ data_array_of frame"
  have r: "raw_frame_of frame = Some ?raw"
    by (rule raw_frame_of_eq)
  have all: "\<forall>w \<in> set (clients b). \<not> write_raises (writers b w) \<longrightarrow>
          written (writers (handle_can_message frame b) w) = written (writers b w) @ ?raw"
    by (simp add: handle_can_message_writers [OF assms])
  have t4: "take 4 ?raw = pack_I (frame_id frame)"
    by (simp add: length_pack_I)
  have nth: "?raw ! 0 = pack_I (frame_id frame) ! 0" "?raw ! 1 = pack_I (frame_id frame) ! 1"
    "?raw ! 2 = pack_I (frame_id frame) ! 2" "?raw ! 3 = pack_I (frame_id frame) ! 3"
    by (simp_all add: nth_append length_pack_I)
  have be: "(of_nat (push_bit 24 (unat (?raw ! 0)) OR push_bit 16 (unat (?raw ! 1))
           OR push_bit 8 (unat (?raw ! 2)) OR unat (?raw ! 3)) :: 32 word) = frame_id frame"
    unfolding nth by (rule can_id_pack_I)
  have null: "data_ptr (data frame) = None \<longrightarrow> ?raw = pack_I (frame_id frame) @ [0]"
    by (simp add: data_size_of_def data_array_of_def)
  have buf: "\<forall>buf. data_ptr (data frame) = Some buf
          \<and> min (get_dlc_size (unat (dlc frame))) (size_bv (data frame)) \<le> length buf \<longrightarrow>
          ?raw = pack_I (frame_id frame)
            @ [of_nat (min (get_dlc_size (unat (dlc frame))) (size_bv (data frame)))]
            @ take (min (get_dlc_size (unat (dlc frame))) (size_bv (data frame))) buf"
  proof (intro allI impI)
    fix buf
    assume a: "data_ptr (data frame) = Some buf
          \<and> min (get_dlc_size (unat (dlc frame))) (size_bv (data frame)) \<le> length buf"
    then have s: "data_size_of frame = min (get_dlc_size (unat (dlc frame))) (size_bv (data frame))"
      by (simp add: data_size_of_def)
    with a have "data_array_of frame = take (data_size_of frame) buf"
      by (intro data_array_of_take) simp_all
    then show "?raw = pack_I (frame_id frame)
            @ [of_nat (min (get_dlc_size (unat (dlc frame))) (size_bv (data frame)))]
            @ take (min (get_dlc_size (unat (dlc frame))) (size_bv (data frame))) buf"
      unfolding s by simp
  qed
  have cons: "\<forall>payload. data_ptr (data frame) = Some payload
          \<and> size_bv (data frame) = length payload
          \<and> get_dlc_size (unat (dlc frame)) = length payload \<longrightarrow>
          ?raw = pack_I (frame_id frame) @ [of_nat (length payload)] @ payload"
    by (simp add: data_array_of_consistent)
  show ?thesis
    by (intro exI [of _ ?raw] conjI) (rule r all t4 be null buf cons)+
qed

theorem fan_out_compact_to_all_witness:
  "written (writers (handle_can_message
      \<lparr>version = struct_header_version, frame_id = 0x999, flags = 0, dlc = 3, sdt = 0,
       vcid = 0, af = 0, data = \<lparr>data_ptr = Some [1, 2, 3], size_bv = 3\<rparr>\<rparr>
      (quiet_bridge [1, 2]
        ((\<lambda>w. open_writer ''127.0.0.1'')(1 := open_writer ''192.0.2.20'')) [])) 1)
    = [0x00, 0x00, 0x09, 0x99, 0x03, 0x01, 0x02, 0x03]
   \<and> written (writers (handle_can_message
      \<lparr>version = struct_header_version, frame_id = 0x999, flags = 0, dlc = 3, sdt = 0,
       vcid = 0, af = 0, data = \<lparr>data_ptr = Some [1, 2, 3], size_bv = 3\<rparr>\<rparr>
      (quiet_bridge [1, 2]
        ((\<lambda>w. open_writer ''127.0.0.1'')(1 := open_writer ''192.0.2.20'')) [])) 2)
    = [0x00, 0x00, 0x09, 0x99, 0x03, 0x01, 0x02, 0x03]
   \<and> written (writers (handle_can_message
      \<lparr>version = struct_header_version, frame_id = 0x999, flags = 0, dlc = 2, sdt = 0,
       vcid = 0, af = 0, data = \<lparr>data_ptr = Some [1, 2, 3], size_bv = 3\<rparr>\<rparr>
      (quiet_bridge [1, 2]
        ((\<lambda>w. open_writer ''127.0.0.1'')(1 := open_writer ''192.0.2.20'')) [])) 2)
    = [0x00, 0x00, 0x09, 0x99, 0x02, 0x01, 0x02]"
proof -
  let ?frame = "\<lparr>version = struct_header_version, frame_id = 0x999, flags = 0, dlc = 3,
       sdt = 0, vcid = 0, af = 0, data = \<lparr>data_ptr = Some [1, 2, 3], size_bv = 3\<rparr>\<rparr>"
  let ?short = "\<lparr>version = struct_header_version, frame_id = 0x999, flags = 0, dlc = 2,
       sdt = 0, vcid = 0, af = 0, data = \<lparr>data_ptr = Some [1, 2, 3], size_bv = 3\<rparr>\<rparr>"
  let ?b = "quiet_bridge [1, 2]
        ((\<lambda>w. open_writer ''127.0.0.1'')(1 := open_writer ''192.0.2.20'')) []"
  have dist: "distinct (clients ?b)" by (simp add: quiet_bridge_def)
  have one: "1 \<in> set (clients ?b)" and ok1: "\<not> write_raises (writers ?b 1)"
    and e1: "written (writers ?b 1) = []"
    and two: "2 \<in> set (clients ?b)" and ok2: "\<not> write_raises (writers ?b 2)"
    and e2: "written (writers ?b 2) = []"
    by (simp_all add: quiet_bridge_def open_writer_def)
  from fan_out_compact_to_all [OF dist, of ?frame]
  obtain raw where t: "raw_frame_of ?frame = Some raw
    \<and> (\<forall>w \<in> set (clients ?b). \<not> write_raises (writers ?b w) \<longrightarrow>
          written (writers (handle_can_message ?frame ?b) w) = written (writers ?b w) @ raw)
    \<and> take 4 raw = pack_I (frame_id ?frame)
    \<and> (of_nat (push_bit 24 (unat (raw ! 0)) OR push_bit 16 (unat (raw ! 1))
           OR push_bit 8 (unat (raw ! 2)) OR unat (raw ! 3)) :: 32 word) = frame_id ?frame
    \<and> (data_ptr (data ?frame) = None \<longrightarrow> raw = pack_I (frame_id ?frame) @ [0])
    \<and> (\<forall>buf. data_ptr (data ?frame) = Some buf
          \<and> min (get_dlc_size (unat (dlc ?frame))) (size_bv (data ?frame)) \<le> length buf \<longrightarrow>
          raw = pack_I (frame_id ?frame)
            @ [of_nat (min (get_dlc_size (unat (dlc ?frame))) (size_bv (data ?frame)))]
            @ take (min (get_dlc_size (unat (dlc ?frame))) (size_bv (data ?frame))) buf)
    \<and> (\<forall>payload. data_ptr (data ?frame) = Some payload
          \<and> size_bv (data ?frame) = length payload
          \<and> get_dlc_size (unat (dlc ?frame)) = length payload \<longrightarrow>
          raw = pack_I (frame_id ?frame) @ [of_nat (length payload)] @ payload)"
    ..
  note all = t [THEN conjunct2, THEN conjunct1, rule_format]
  note cons = t [THEN conjunct2, THEN conjunct2, THEN conjunct2, THEN conjunct2,
      THEN conjunct2, THEN conjunct2, rule_format]
  have "data_ptr (data ?frame) = Some [1, 2, 3] \<and> size_bv (data ?frame) = length [1, 2, 3 :: byte]
      \<and> get_dlc_size (unat (dlc ?frame)) = length [1, 2, 3 :: byte]"
    by (simp add: get_dlc_size_def)
  from cons [OF this] have raw: "raw = [0x00, 0x00, 0x09, 0x99, 0x03, 0x01, 0x02, 0x03]"
    by (simp add: pack_I_def)
  from all [OF one ok1] have w1: "written (writers (handle_can_message ?frame ?b) 1)
      = [0x00, 0x00, 0x09, 0x99, 0x03, 0x01, 0x02, 0x03]"
    unfolding e1 raw by simp
  from all [OF two ok2] have w2: "written (writers (handle_can_message ?frame ?b) 2)
      = [0x00, 0x00, 0x09, 0x99, 0x03, 0x01, 0x02, 0x03]"
    unfolding e2 raw by simp
  from fan_out_compact_to_all [OF dist, of ?short]
  obtain raw2 where t2: "raw_frame_of ?short = Some raw2
    \<and> (\<forall>w \<in> set (clients ?b). \<not> write_raises (writers ?b w) \<longrightarrow>
          written (writers (handle_can_message ?short ?b) w) = written (writers ?b w) @ raw2)
    \<and> take 4 raw2 = pack_I (frame_id ?short)
    \<and> (of_nat (push_bit 24 (unat (raw2 ! 0)) OR push_bit 16 (unat (raw2 ! 1))
           OR push_bit 8 (unat (raw2 ! 2)) OR unat (raw2 ! 3)) :: 32 word) = frame_id ?short
    \<and> (data_ptr (data ?short) = None \<longrightarrow> raw2 = pack_I (frame_id ?short) @ [0])
    \<and> (\<forall>buf. data_ptr (data ?short) = Some buf
          \<and> min (get_dlc_size (unat (dlc ?short))) (size_bv (data ?short)) \<le> length buf \<longrightarrow>
          raw2 = pack_I (frame_id ?short)
            @ [of_nat (min (get_dlc_size (unat (dlc ?short))) (size_bv (data ?short)))]
            @ take (min (get_dlc_size (unat (dlc ?short))) (size_bv (data ?short))) buf)
    \<and> (\<forall>payload. data_ptr (data ?short) = Some payload
          \<and> size_bv (data ?short) = length payload
          \<and> get_dlc_size (unat (dlc ?short)) = length payload \<longrightarrow>
          raw2 = pack_I (frame_id ?short) @ [of_nat (length payload)] @ payload)"
    ..
  note all2 = t2 [THEN conjunct2, THEN conjunct1, rule_format]
  note buf2 = t2 [THEN conjunct2, THEN conjunct2, THEN conjunct2, THEN conjunct2,
      THEN conjunct2, THEN conjunct1, rule_format]
  have "data_ptr (data ?short) = Some [1, 2, 3]
      \<and> min (get_dlc_size (unat (dlc ?short))) (size_bv (data ?short)) \<le> length [1, 2, 3 :: byte]"
    by (simp add: get_dlc_size_def)
  from buf2 [OF this] have raw2: "raw2 = [0x00, 0x00, 0x09, 0x99, 0x02, 0x01, 0x02]"
    by (simp add: pack_I_def get_dlc_size_def)
  from all2 [OF two ok2] have w3: "written (writers (handle_can_message ?short ?b) 2)
      = [0x00, 0x00, 0x09, 0x99, 0x02, 0x01, 0x02]"
    unfolding e2 raw2 by simp
  from w1 w2 w3 show ?thesis by (intro conjI)
qed





text \<open>
  C10. The length that \<^verbatim>\<open>handle_can_message\<close> uses is the smaller of the size that the
  DLC stands for and the size of the buffer, and 0 without a buffer. The fifth byte of
  the bytes written holds this length, and exactly this many bytes follow it, also when
  the DLC does not agree with the size of the buffer.
\<close>

theorem fan_out_length_byte:
  "\<exists>raw. raw_frame_of frame = Some raw
    \<and> unat (raw ! 4) = length (drop 5 raw)
    \<and> length raw = 5 + length (drop 5 raw)
    \<and> length (drop 5 raw) =
        (if data_ptr (data frame) = None then 0
         else min (get_dlc_size (unat (dlc frame))) (size_bv (data frame)))
    \<and> (\<forall>b. \<forall>w \<in> set (clients b). distinct (clients b) \<and> \<not> write_raises (writers b w) \<longrightarrow>
          written (writers (handle_can_message frame b) w) = written (writers b w) @ raw)"
proof -
  let ?raw = "pack_I (frame_id frame) @ [of_nat (data_size_of frame)] @ data_array_of frame"
  have small: "data_size_of frame < 256"
    using data_size_of_le [of frame] by simp
  have tail: "drop 5 ?raw = data_array_of frame"
    by (simp add: length_pack_I)
  have fifth: "?raw ! 4 = of_nat (data_size_of frame)"
    by (simp add: nth_append length_pack_I)
  have "unat (of_nat (data_size_of frame) :: byte) = data_size_of frame"
    using small by (simp add: unat_of_nat)
  then have a: "unat (?raw ! 4) = length (drop 5 ?raw)"
    unfolding tail fifth by (simp add: length_data_array_of)
  have b: "length ?raw = 5 + length (drop 5 ?raw)"
    unfolding tail by (simp add: length_pack_I)
  have c: "length (drop 5 ?raw) =
        (if data_ptr (data frame) = None then 0
         else min (get_dlc_size (unat (dlc frame))) (size_bv (data frame)))"
    unfolding tail by (simp add: length_data_array_of data_size_of_def)
  have d: "\<forall>b. \<forall>w \<in> set (clients b). distinct (clients b) \<and> \<not> write_raises (writers b w) \<longrightarrow>
          written (writers (handle_can_message frame b) w) = written (writers b w) @ ?raw"
  proof (intro allI ballI impI)
    fix b :: bridge and w :: nat
    assume w: "w \<in> set (clients b)"
      and "distinct (clients b) \<and> \<not> write_raises (writers b w)"
    then have dist: "distinct (clients b)" and ok: "\<not> write_raises (writers b w)"
      by simp_all
    show "written (writers (handle_can_message frame b) w) = written (writers b w) @ ?raw"
      unfolding handle_can_message_writers [OF dist] using w ok by simp
  qed
  show ?thesis
    by (intro exI [of _ ?raw] conjI) (rule raw_frame_of_eq a b c d)+
qed


theorem fan_out_length_byte_witness:
  "\<exists>raw. raw_frame_of
      \<lparr>version = struct_header_version, frame_id = 0x999, flags = 0, dlc = 15, sdt = 0,
       vcid = 0, af = 0, data = \<lparr>data_ptr = Some [1, 2, 3], size_bv = 3\<rparr>\<rparr> = Some raw
    \<and> unat (raw ! 4) = 3 \<and> length raw = 8
    \<and> written (writers (handle_can_message
      \<lparr>version = struct_header_version, frame_id = 0x999, flags = 0, dlc = 15, sdt = 0,
       vcid = 0, af = 0, data = \<lparr>data_ptr = Some [1, 2, 3], size_bv = 3\<rparr>\<rparr>
      (quiet_bridge [1] (\<lambda>w. open_writer ''192.0.2.20'') [])) 1) = raw"
proof -
  let ?frame = "\<lparr>version = struct_header_version, frame_id = 0x999, flags = 0, dlc = 15,
       sdt = 0, vcid = 0, af = 0, data = \<lparr>data_ptr = Some [1, 2, 3], size_bv = 3\<rparr>\<rparr>"
  let ?b = "quiet_bridge [1] (\<lambda>w. open_writer ''192.0.2.20'') []"
  from fan_out_length_byte [of ?frame]
  obtain raw where t: "raw_frame_of ?frame = Some raw
    \<and> unat (raw ! 4) = length (drop 5 raw)
    \<and> length raw = 5 + length (drop 5 raw)
    \<and> length (drop 5 raw) =
        (if data_ptr (data ?frame) = None then 0
         else min (get_dlc_size (unat (dlc ?frame))) (size_bv (data ?frame)))
    \<and> (\<forall>b. \<forall>w \<in> set (clients b). distinct (clients b) \<and> \<not> write_raises (writers b w) \<longrightarrow>
          written (writers (handle_can_message ?frame b) w) = written (writers b w) @ raw)"
    ..
  note r = t [THEN conjunct1]
  note b = t [THEN conjunct2, THEN conjunct1]
  note l = t [THEN conjunct2, THEN conjunct2, THEN conjunct1]
  note n = t [THEN conjunct2, THEN conjunct2, THEN conjunct2, THEN conjunct1]
  note all = t [THEN conjunct2, THEN conjunct2, THEN conjunct2, THEN conjunct2, rule_format]
  from n have three: "length (drop 5 raw) = 3"
    by (simp add: get_dlc_size_def)
  have one: "1 \<in> set (clients ?b)"
    and ok: "distinct (clients ?b) \<and> \<not> write_raises (writers ?b 1)"
    and empty: "written (writers ?b 1) = []"
    by (simp_all add: quiet_bridge_def open_writer_def)
  from all [OF one ok] have w: "written (writers (handle_can_message ?frame ?b) 1) = raw"
    unfolding empty by simp
  from l have len: "length raw = 8"
    unfolding three by simp
  from b have byte: "unat (raw ! 4) = 3"
    unfolding three .
  show ?thesis
    by (intro exI [of _ raw] conjI) (rule r byte len w)+
qed


end
